theory Spec2Isabelle
  imports Complex_Main
begin

section \<open>Python values, exceptions and case keys\<close>

text \<open>
  The exceptions that \<^verbatim>\<open>groundtruthstudy.py\<close> raises itself or receives from the
  standard library calls it makes. \<open>ExternalError\<close> stands for an exception raised
  inside an external library call (a sorter, an extractor loader, a comparison).
\<close>

datatype error =
    ValueError
  | IndexError
  | AssertionError
  | TypeError
  | KeyError
  | AttributeError
  | FileExistsError
  | FileNotFoundError
  | NotADirectoryError
  | IsADirectoryError
  | JSONDecodeError
  | UnpicklingError
  | ExternalError string

text \<open>
  A key of the \<^verbatim>\<open>cases\<close> dict is any hashable Python object. The code distinguishes
  three kinds with \<^verbatim>\<open>isinstance\<close>: a \<^verbatim>\<open>str\<close>, a \<^verbatim>\<open>tuple\<close> (whose components are
  again arbitrary objects), and everything else.
\<close>

datatype pykey = KStr string | KTuple "pykey list" | KOther nat

text \<open>\<^verbatim>\<open>_key_separator = " ## "\<close>\<close>

definition key_separator :: string where
  "key_separator = '' ## ''"

text \<open>
  \<^verbatim>\<open>sep.join(items)\<close> of Python: the items separated by \<open>sep\<close>; a \<^verbatim>\<open>TypeError\<close> when
  an item is not a \<^verbatim>\<open>str\<close>.
\<close>

fun str_join :: "string \<Rightarrow> pykey list \<Rightarrow> error + string" where
  "str_join sep [] = Inr []"
| "str_join sep [KStr s] = Inr s"
| "str_join sep (KStr s # k # ks) =
     (case str_join sep (k # ks) of Inl e \<Rightarrow> Inl e | Inr r \<Rightarrow> Inr (s @ sep @ r))"
| "str_join sep (_ # _) = Inl TypeError"

text \<open>
  \<^verbatim>\<open>
  def key_to_str(self, key):
      if isinstance(key, str):
          return key
      elif isinstance(key, tuple):
          return _key_separator.join(key)
      else:
          raise ValueError("Keys for cases must str or tuple")
  \<close>
\<close>

fun key_to_str :: "pykey \<Rightarrow> error + string" where
  "key_to_str (KStr s) = Inr s"
| "key_to_str (KTuple ks) = str_join key_separator ks"
| "key_to_str (KOther n) = Inl ValueError"

text \<open>The separated concatenation of strings, as the words "joins the components" say it.\<close>

fun join_strs :: "string \<Rightarrow> string list \<Rightarrow> string" where
  "join_strs sep [] = []"
| "join_strs sep [s] = s"
| "join_strs sep (s # t # ts) = s @ sep @ join_strs sep (t # ts)"

fun is_str :: "pykey \<Rightarrow> bool" where
  "is_str (KStr s) = True"
| "is_str _ = False"

fun is_tuple :: "pykey \<Rightarrow> bool" where
  "is_tuple (KTuple ks) = True"
| "is_tuple _ = False"

text \<open>\<^verbatim>\<open>len(key)\<close> of a tuple key (only called on tuples).\<close>

fun tuple_len :: "pykey \<Rightarrow> nat" where
  "tuple_len (KTuple ks) = length ks"
| "tuple_len _ = 0"

section \<open>Paths and the file system\<close>

text \<open>
  A \<^verbatim>\<open>pathlib.Path\<close> (POSIX flavour): whether it is anchored at the root, and its
  components. \<open>p / s\<close> with a string \<open>s\<close> splits \<open>s\<close> at the slashes, drops empty and
  \<^verbatim>\<open>.\<close> components, and restarts from the root when \<open>s\<close> begins with a slash.
\<close>

datatype path = Path bool "string list"

fun parts :: "path \<Rightarrow> string list" where
  "parts (Path a ps) = ps"

fun split_on :: "char \<Rightarrow> string \<Rightarrow> string list" where
  "split_on c [] = [[]]"
| "split_on c (x # xs) =
     (if x = c then [] # split_on c xs
      else (case split_on c xs of [] \<Rightarrow> [[x]] | w # ws \<Rightarrow> (x # w) # ws))"

definition comps :: "string \<Rightarrow> string list" where
  "comps s = filter (\<lambda>w. w \<noteq> [] \<and> w \<noteq> ''.'') (split_on CHR ''/'' s)"

fun pjoin :: "path \<Rightarrow> string \<Rightarrow> path" where
  "pjoin (Path a ps) s =
     (case s of
        [] \<Rightarrow> Path a ps
      | c # cs \<Rightarrow> if c = CHR ''/'' then Path True (comps s) else Path a (ps @ comps s))"

text \<open>\<^verbatim>\<open>Path.parent\<close>: the root and the empty relative path are their own parents.\<close>

fun parent :: "path \<Rightarrow> path" where
  "parent (Path a ps) = Path a (butlast ps)"

fun name_of :: "path \<Rightarrow> string" where
  "name_of (Path a ps) = (if ps = [] then [] else last ps)"

text \<open>
  What the study reads back from its own files: \<^verbatim>\<open>info.json\<close> is a JSON object that
  may have a \<^verbatim>\<open>"levels"\<close> entry (a string or a list of strings), \<^verbatim>\<open>cases.pickle\<close> is a
  pickled dict. Every other file (pickled extractors, sorter logs) is opaque here and
  only read by external libraries.
\<close>

datatype levels = LevelStr string | LevelList "string list"

text \<open>An extractor object (a recording or a sorting), identified by an opaque name.\<close>

datatype extractor = Extractor string

text \<open>
  A parameter value of a sorter run. \<^verbatim>\<open>run_sorter_params\<close> is a dict from parameter
  names to such values.
\<close>

datatype pyval =
    VStr string
  | VInt int
  | VBool bool
  | VNone
  | VExtractor extractor
  | VPath path

type_synonym params = "string \<rightharpoonup> pyval"

text \<open>
  A case is a dict; the code reads its entries \<^verbatim>\<open>"dataset"\<close> and
  \<^verbatim>\<open>"run_sorter_params"\<close>, each of which may be absent (\<^verbatim>\<open>KeyError\<close>).
\<close>

record case_spec =
  dataset :: "string option"
  run_sorter_params :: "params option"

text \<open>
  The \<^verbatim>\<open>cases\<close> dict in insertion order (the order in which \<^verbatim>\<open>cases.keys()\<close> iterates).
\<close>

type_synonym cases = "(pykey \<times> case_spec) list"

datatype content =
    ContentJson "levels option"
  | ContentCases cases
  | ContentOpaque string

record filesys =
  dirs :: "path list"
  files :: "(path \<times> content) list"

text \<open>The root and the current directory (no components) always exist.\<close>

definition is_dir :: "filesys \<Rightarrow> path \<Rightarrow> bool" where
  "is_dir fs p = (parts p = [] \<or> p \<in> set (dirs fs))"

definition is_file :: "filesys \<Rightarrow> path \<Rightarrow> bool" where
  "is_file fs p = (parts p \<noteq> [] \<and> p \<in> fst ` set (files fs))"

text \<open>
  \<^verbatim>\<open>Path.exists()\<close>, as a test that returns: paths are compared component by
  component as they are written (\<^verbatim>\<open>..\<close> is not resolved), and the operating system
  errors that \<^verbatim>\<open>exists()\<close> passes on (a name that is too long, say) are not modelled.
\<close>

definition exists_path :: "filesys \<Rightarrow> path \<Rightarrow> bool" where
  "exists_path fs p = (is_dir fs p \<or> is_file fs p)"

text \<open>
  \<^verbatim>\<open>Path.mkdir()\<close> with the defaults \<^verbatim>\<open>parents=False, exist_ok=False\<close>.
\<close>

definition mkdir :: "path \<Rightarrow> filesys \<Rightarrow> error + filesys" where
  "mkdir p fs =
     (if exists_path fs p then Inl FileExistsError
      else if is_file fs (parent p) then Inl NotADirectoryError
      else if \<not> is_dir fs (parent p) then Inl FileNotFoundError
      else Inr (fs\<lparr>dirs := dirs fs @ [p]\<rparr>))"

text \<open>
  \<^verbatim>\<open>Path.mkdir(exist_ok=True)\<close>: an existing directory is accepted, an existing file
  is not.
\<close>

definition mkdir_exist_ok :: "path \<Rightarrow> filesys \<Rightarrow> error + filesys" where
  "mkdir_exist_ok p fs =
     (if is_dir fs p then Inr fs
      else if is_file fs p then Inl FileExistsError
      else mkdir p fs)"

text \<open>
  Creating the missing ancestors of a path, outermost first: \<open>done\<close> are the components
  already walked, \<open>todo\<close> those still to create.
\<close>

fun make_ancestors :: "bool \<Rightarrow> string list \<Rightarrow> string list \<Rightarrow> filesys \<Rightarrow> error + filesys" where
  "make_ancestors a done [] fs = Inr fs"
| "make_ancestors a done (c # cs) fs =
     (let p = Path a (done @ [c]) in
      if is_file fs p then Inl NotADirectoryError
      else if is_dir fs p then make_ancestors a (done @ [c]) cs fs
      else make_ancestors a (done @ [c]) cs (fs\<lparr>dirs := dirs fs @ [p]\<rparr>))"

text \<open>\<^verbatim>\<open>Path.mkdir(exist_ok=False, parents=True)\<close>\<close>

fun mkdir_parents :: "path \<Rightarrow> filesys \<Rightarrow> error + filesys" where
  "mkdir_parents (Path a ps) fs =
     (if exists_path fs (Path a ps) then Inl FileExistsError
      else (case make_ancestors a [] (butlast ps) fs of
              Inl e \<Rightarrow> Inl e
            | Inr fs' \<Rightarrow> mkdir (Path a ps) fs'))"

text \<open>
  Writing a file (\<^verbatim>\<open>write_text\<close>, \<^verbatim>\<open>write_bytes\<close>, a pickle dump): the parent must
  be a directory and the path must not be one; an existing file is replaced.
\<close>

definition write_file :: "path \<Rightarrow> content \<Rightarrow> filesys \<Rightarrow> error + filesys" where
  "write_file p c fs =
     (if is_dir fs p then Inl IsADirectoryError
      else if \<not> is_dir fs (parent p) then Inl FileNotFoundError
      else Inr (fs\<lparr>files := (p, c) # filter (\<lambda>(q, _). q \<noteq> p) (files fs)\<rparr>))"

text \<open>\<^verbatim>\<open>open(p)\<close> for reading.\<close>

definition read_file :: "filesys \<Rightarrow> path \<Rightarrow> error + content" where
  "read_file fs p =
     (if is_dir fs p then Inl IsADirectoryError
      else (case map_of (files fs) p of None \<Rightarrow> Inl FileNotFoundError | Some c \<Rightarrow> Inr c))"

text \<open>\<open>q\<close> is \<open>p\<close> or lies below it.\<close>

fun under :: "path \<Rightarrow> path \<Rightarrow> bool" where
  "under (Path a ps) (Path b qs) = (a = b \<and> take (length ps) qs = ps)"

text \<open>\<^verbatim>\<open>shutil.rmtree(p)\<close>\<close>

definition rmtree :: "path \<Rightarrow> filesys \<Rightarrow> error + filesys" where
  "rmtree p fs =
     (if is_file fs p then Inl NotADirectoryError
      else if \<not> is_dir fs p then Inl FileNotFoundError
      else Inr (fs\<lparr>dirs := filter (\<lambda>q. \<not> under p q) (dirs fs),
                   files := filter (\<lambda>(q, _). \<not> under p q) (files fs)\<rparr>))"

text \<open>\<^verbatim>\<open>shutil.copyfile(src, dst)\<close>\<close>

definition copyfile :: "path \<Rightarrow> path \<Rightarrow> filesys \<Rightarrow> error + filesys" where
  "copyfile src dst fs =
     (case read_file fs src of
        Inl e \<Rightarrow> Inl e
      | Inr c \<Rightarrow> write_file dst c fs)"

text \<open>
  The entries of directory \<open>d\<close> whose name ends in \<^verbatim>\<open>.pickle\<close>
  (\<^verbatim>\<open>d.glob("*.pickle")\<close>), and \<^verbatim>\<open>Path.stem\<close> of such an entry.
\<close>

definition pickle_suffix :: string where
  "pickle_suffix = ''.pickle''"

definition ends_with :: "string \<Rightarrow> string \<Rightarrow> bool" where
  "ends_with suf s = (length suf \<le> length s \<and> drop (length s - length suf) s = suf)"

definition glob_pickle :: "filesys \<Rightarrow> path \<Rightarrow> path list" where
  "glob_pickle fs d =
     filter (\<lambda>q. parts q \<noteq> [] \<and> parent q = d \<and> ends_with pickle_suffix (name_of q))
       (map fst (files fs) @ dirs fs)"

definition stem :: "path \<Rightarrow> string" where
  "stem q =
     (let n = name_of q; k = length n - length pickle_suffix in
      if k = 0 then n else take k n)"

section \<open>External libraries\<close>

text \<open>
  A job description handed to the sorter runner, and the keyword arguments of an
  engine: Python dicts with string keys.
\<close>

type_synonym job = "string \<rightharpoonup> pyval"

text \<open>
  The calls into \<^verbatim>\<open>spikeinterface.core\<close> and \<^verbatim>\<open>spikeinterface.sorters\<close> whose
  results the study only stores or tests. Each is a parameter of the model:
  \<^item> \<^verbatim>\<open>load_extractor(path)\<close> returns an extractor object or raises;
  \<^item> \<^verbatim>\<open>read_sorter_folder(folder, raise_error=False)\<close> returns a sorting, or \<^verbatim>\<open>None\<close>
    for a failed run, or raises;
  \<^item> \<^verbatim>\<open>run_sorter_jobs(job_list, engine=..., engine_kwargs=..., return_output=False)\<close>
    runs the jobs and changes the disk;
  \<^item> \<^verbatim>\<open>extract_waveforms(recording, sorting, folder=...)\<close> changes the disk;
  \<^item> \<^verbatim>\<open>sorting.get_unit_ids()\<close>;
  \<^item> \<^verbatim>\<open>pd.Index(keys, name=levels)\<close> and \<^verbatim>\<open>pd.MultiIndex.from_tuples(keys, names=levels)\<close>
    of pandas return the row labels of a frame or raise.
\<close>

record externals =
  load_extractor :: "filesys \<Rightarrow> path \<Rightarrow> error + extractor"
  read_sorter_folder :: "filesys \<Rightarrow> path \<Rightarrow> error + extractor option"
  run_sorter_jobs :: "job list \<Rightarrow> string \<Rightarrow> params \<Rightarrow> filesys \<Rightarrow> error option \<times> filesys"
  extract_waveforms :: "extractor \<Rightarrow> extractor \<Rightarrow> path \<Rightarrow> filesys \<Rightarrow> error option \<times> filesys"
  get_unit_ids :: "extractor \<Rightarrow> nat list"
  pd_Index :: "pykey list \<Rightarrow> levels \<Rightarrow> error + pykey list"
  pd_MultiIndex_from_tuples :: "pykey list \<Rightarrow> levels \<Rightarrow> error + pykey list"

text \<open>
  \<^verbatim>\<open>extractor.dump_to_pickle(file)\<close> writes one file;
  \<^verbatim>\<open>sorting.save(format="numpy_folder", folder=...)\<close> refuses an existing folder
  (an assertion of the library) and otherwise creates it with its parents. What they
  write inside is opaque here.
\<close>

fun dump_to_pickle :: "extractor \<Rightarrow> path \<Rightarrow> filesys \<Rightarrow> error + filesys" where
  "dump_to_pickle (Extractor n) p fs = write_file p (ContentOpaque n) fs"

definition save_numpy_folder :: "path \<Rightarrow> filesys \<Rightarrow> error + filesys" where
  "save_numpy_folder p fs = (if is_dir fs p then Inl AssertionError else mkdir_parents p fs)"

text \<open>
  A comparison object (\<^verbatim>\<open>GroundTruthComparison\<close>): the attributes and counting methods
  that the study reads. Scores are optional thresholds passed through unchanged.
\<close>

record comparison =
  sorting1 :: extractor
  sorting2 :: extractor
  exhaustive_gt :: bool
  count_well_detected_units :: "rat option \<Rightarrow> nat"
  count_overmerged_units :: "rat option \<Rightarrow> nat"
  count_redundant_units :: "rat option \<Rightarrow> nat"
  count_false_positive_units :: "rat option \<Rightarrow> nat"
  count_bad_units :: nat

section \<open>The study object\<close>

text \<open>
  The attributes of a \<^verbatim>\<open>GroundTruthStudy\<close>. \<open>info\<close> and \<open>levels\<close> are unset until
  \<^verbatim>\<open>scan_folder\<close> has read \<^verbatim>\<open>info.json\<close>. A dict entry whose value is \<^verbatim>\<open>None\<close> is
  \<open>Some None\<close>; a missing entry is \<open>None\<close>.
\<close>

record study =
  folder :: path
  info :: "content option"
  levels :: "levels option"
  datasets :: "string \<rightharpoonup> (extractor \<times> extractor)"
  cases :: cases
  sortings :: "pykey \<rightharpoonup> extractor option"
  comparisons :: "pykey \<rightharpoonup> comparison option"

text \<open>\<^verbatim>\<open>json.load(f)["levels"]\<close> and \<^verbatim>\<open>pickle.load(f)\<close> on what a file holds.\<close>

fun json_levels :: "content \<Rightarrow> error + levels" where
  "json_levels (ContentJson (Some lv)) = Inr lv"
| "json_levels (ContentJson None) = Inl KeyError"
| "json_levels _ = Inl JSONDecodeError"

fun unpickle_cases :: "content \<Rightarrow> error + cases" where
  "unpickle_cases (ContentCases cs) = Inr cs"
| "unpickle_cases _ = Inl UnpicklingError"

text \<open>
  \<^verbatim>\<open>
  for rec_file in (self.folder / "datasets/recordings").glob("*.pickle"):
      key = rec_file.stem
      rec = load_extractor(rec_file)
      gt_sorting = load_extractor(self.folder / f"datasets/gt_sortings/{key}")
      self.datasets[key] = (rec, gt_sorting)
  \<close>
\<close>

fun scan_datasets ::
  "externals \<Rightarrow> filesys \<Rightarrow> path \<Rightarrow> path list \<Rightarrow> (string \<rightharpoonup> (extractor \<times> extractor))
    \<Rightarrow> error + (string \<rightharpoonup> (extractor \<times> extractor))" where
  "scan_datasets E fs fo [] ds = Inr ds"
| "scan_datasets E fs fo (rec_file # rest) ds =
     (let key = stem rec_file in
      case load_extractor E fs rec_file of
        Inl e \<Rightarrow> Inl e
      | Inr rec \<Rightarrow>
          (case load_extractor E fs (pjoin fo (''datasets/gt_sortings/'' @ key)) of
             Inl e \<Rightarrow> Inl e
           | Inr gt_sorting \<Rightarrow> scan_datasets E fs fo rest (ds(key \<mapsto> (rec, gt_sorting)))))"

text \<open>
  \<^verbatim>\<open>
  self.sortings = {}
  for key in self.cases:
      sorting_folder = self.folder / "sortings" / self.key_to_str(key)
      if sorting_folder.exists():
          sorting = load_extractor(sorting_folder)
      else:
          sorting = None
      self.sortings[key] = sorting
  \<close>
\<close>

definition sorting_folder_of :: "path \<Rightarrow> string \<Rightarrow> path" where
  "sorting_folder_of fo s = pjoin (pjoin fo ''sortings'') s"

fun scan_sortings ::
  "externals \<Rightarrow> filesys \<Rightarrow> path \<Rightarrow> pykey list \<Rightarrow> (pykey \<rightharpoonup> extractor option)
    \<Rightarrow> error + (pykey \<rightharpoonup> extractor option)" where
  "scan_sortings E fs fo [] so = Inr so"
| "scan_sortings E fs fo (key # rest) so =
     (case key_to_str key of
        Inl e \<Rightarrow> Inl e
      | Inr s \<Rightarrow>
          if exists_path fs (sorting_folder_of fo s)
          then (case load_extractor E fs (sorting_folder_of fo s) of
                  Inl e \<Rightarrow> Inl e
                | Inr sorting \<Rightarrow> scan_sortings E fs fo rest (so(key \<mapsto> Some sorting)))
          else scan_sortings E fs fo rest (so(key \<mapsto> None)))"

text \<open>\<^verbatim>\<open>{k: None for k in self.cases}\<close>\<close>

definition none_for_each :: "cases \<Rightarrow> (pykey \<rightharpoonup> comparison option)" where
  "none_for_each cs = map_of (map (\<lambda>(k, c). (k, None)) cs)"

text \<open>
  \<^verbatim>\<open>
  def scan_folder(self):
      if not (self.folder / "datasets").exists():
          raise ValueError(f"This is folder is not a GroundTruthStudy : ...")
      with open(self.folder / "info.json", "r") as f:
          self.info = json.load(f)
      self.levels = self.info["levels"]
      for rec_file in ...:                      # scan_datasets
      with open(self.folder / "cases.pickle", "rb") as f:
          self.cases = pickle.load(f)
      self.comparisons = {k: None for k in self.cases}
      self.sortings = {}
      for key in self.cases: ...                # scan_sortings
  \<close>
  The method only reads the disk. The result is the object when the method returns,
  or the exception it raises.
\<close>

definition scan_folder :: "externals \<Rightarrow> filesys \<Rightarrow> study \<Rightarrow> error + study" where
  "scan_folder E fs st =
     (if \<not> exists_path fs (pjoin (folder st) ''datasets'') then Inl ValueError
      else case read_file fs (pjoin (folder st) ''info.json'') of
        Inl e \<Rightarrow> Inl e
      | Inr js \<Rightarrow>
      (case json_levels js of
        Inl e \<Rightarrow> Inl e
      | Inr lv \<Rightarrow>
      (case scan_datasets E fs (folder st)
              (glob_pickle fs (pjoin (folder st) ''datasets/recordings'')) (datasets st) of
        Inl e \<Rightarrow> Inl e
      | Inr ds \<Rightarrow>
      (case read_file fs (pjoin (folder st) ''cases.pickle'') of
        Inl e \<Rightarrow> Inl e
      | Inr pk \<Rightarrow>
      (case unpickle_cases pk of
        Inl e \<Rightarrow> Inl e
      | Inr cs \<Rightarrow>
      (case scan_sortings E fs (folder st) (map fst cs) Map.empty of
        Inl e \<Rightarrow> Inl e
      | Inr so \<Rightarrow>
          Inr (st\<lparr>info := Some js, levels := Some lv, datasets := ds, cases := cs,
                  comparisons := none_for_each cs, sortings := so\<rparr>)))))))"

text \<open>
  \<^verbatim>\<open>
  def __init__(self, study_folder):
      self.folder = Path(study_folder)
      self.datasets = {}
      self.cases = {}
      self.sortings = {}
      self.comparisons = {}
      self.scan_folder()
  \<close>
\<close>

definition fresh_study :: "path \<Rightarrow> study" where
  "fresh_study study_folder =
     \<lparr>folder = study_folder, info = None, levels = None, datasets = Map.empty, cases = [],
      sortings = Map.empty, comparisons = Map.empty\<rparr>"

definition init :: "externals \<Rightarrow> filesys \<Rightarrow> path \<Rightarrow> error + study" where
  "init E fs study_folder = scan_folder E fs (fresh_study study_folder)"

section \<open>Creating a study\<close>

text \<open>Decimal digits of a number, for \<^verbatim>\<open>f"level{i}"\<close>.\<close>

definition digit_char :: "nat \<Rightarrow> char" where
  "digit_char d = char_of (48 + d)"

fun string_of_nat :: "nat \<Rightarrow> string" where
  "string_of_nat n =
     (if 10 \<le> n then string_of_nat (n div 10) @ [digit_char (n mod 10)]
      else [digit_char n])"

text \<open>\<^verbatim>\<open>list(levels)\<close>: a string is iterated character by character.\<close>

fun list_of_levels :: "levels \<Rightarrow> string list" where
  "list_of_levels (LevelStr s) = map (\<lambda>c. [c]) s"
| "list_of_levels (LevelList xs) = xs"

text \<open>
  \<^verbatim>\<open>
  key0 = list(cases.keys())[0]
  if isinstance(key0, str):
      assert all(isinstance(key, str) for key in cases.keys()), ...
      if levels is None:
          levels = "level0"
      else:
          assert isinstance(levels, str)
  elif isinstance(key0, tuple):
      assert all(isinstance(key, tuple) for key in cases.keys()), ...
      num_levels = len(key0)
      assert all(len(key) == num_levels for key in cases.keys()), ...
      if levels is None:
          levels = [f"level{i}" for i in range(num_levels)]
      else:
          levels = list(levels)
          assert len(levels) == num_levels
  else:
      raise ValueError("Keys for cases must str or tuple")
  \<close>
  The value is the \<^verbatim>\<open>levels\<close> that the rest of \<^verbatim>\<open>create\<close> stores.
\<close>

definition check_case_keys :: "cases \<Rightarrow> levels option \<Rightarrow> error + levels" where
  "check_case_keys cs lv =
     (case cs of
        [] \<Rightarrow> Inl IndexError
      | (key0, c0) # rest \<Rightarrow>
          (case key0 of
             KStr s0 \<Rightarrow>
               if \<not> list_all is_str (map fst cs) then Inl AssertionError
               else (case lv of
                       None \<Rightarrow> Inr (LevelStr ''level0'')
                     | Some (LevelStr l) \<Rightarrow> Inr (LevelStr l)
                     | Some (LevelList ls) \<Rightarrow> Inl AssertionError)
           | KTuple ks0 \<Rightarrow>
               if \<not> list_all is_tuple (map fst cs) then Inl AssertionError
               else if \<not> list_all (\<lambda>k. tuple_len k = length ks0) (map fst cs)
               then Inl AssertionError
               else (case lv of
                       None \<Rightarrow>
                         Inr (LevelList (map (\<lambda>i. ''level'' @ string_of_nat i) [0..<length ks0]))
                     | Some l \<Rightarrow>
                         if length (list_of_levels l) = length ks0
                         then Inr (LevelList (list_of_levels l))
                         else Inl AssertionError)
           | KOther n \<Rightarrow> Inl ValueError))"

text \<open>A sequence of plain \<^verbatim>\<open>mkdir()\<close> calls; what was created before a failure stays.\<close>

fun mkdirs :: "path list \<Rightarrow> filesys \<Rightarrow> error option \<times> filesys" where
  "mkdirs [] fs = (None, fs)"
| "mkdirs (p # ps) fs =
     (case mkdir p fs of Inl e \<Rightarrow> (Some e, fs) | Inr fs' \<Rightarrow> mkdirs ps fs')"

text \<open>
  \<^verbatim>\<open>
  (study_folder / "datasets").mkdir()
  (study_folder / "datasets/recordings").mkdir()
  (study_folder / "datasets/gt_sortings").mkdir()
  (study_folder / "sorters").mkdir()
  (study_folder / "sortings").mkdir()
  (study_folder / "sortings" / "run_logs").mkdir()
  (study_folder / "metrics").mkdir()
  \<close>
\<close>

definition layout_folders :: "path \<Rightarrow> path list" where
  "layout_folders sf =
     [pjoin sf ''datasets'',
      pjoin sf ''datasets/recordings'',
      pjoin sf ''datasets/gt_sortings'',
      pjoin sf ''sorters'',
      pjoin sf ''sortings'',
      pjoin (pjoin sf ''sortings'') ''run_logs'',
      pjoin sf ''metrics'']"

text \<open>
  \<^verbatim>\<open>
  for key, (rec, gt_sorting) in datasets.items():
      assert "/" not in key
      assert "\\" not in key
      rec.dump_to_pickle(study_folder / f"datasets/recordings/{key}.pickle")
      gt_sorting.dump_to_pickle(study_folder / f"datasets/gt_sortings/{key}.pickle")
      gt_sorting.save(format="numpy_folder", folder=study_folder / f"datasets/gt_sortings/{key}")
  \<close>
\<close>

fun dump_datasets ::
  "path \<Rightarrow> (string \<times> extractor \<times> extractor) list \<Rightarrow> filesys \<Rightarrow> error option \<times> filesys" where
  "dump_datasets sf [] fs = (None, fs)"
| "dump_datasets sf ((key, rec, gt_sorting) # rest) fs =
     (if CHR ''/'' \<in> set key then (Some AssertionError, fs)
      else if CHR 0x5C \<in> set key then (Some AssertionError, fs)
      else case dump_to_pickle rec (pjoin sf (''datasets/recordings/'' @ key @ ''.pickle'')) fs of
        Inl e \<Rightarrow> (Some e, fs)
      | Inr fs1 \<Rightarrow>
      (case dump_to_pickle gt_sorting
              (pjoin sf (''datasets/gt_sortings/'' @ key @ ''.pickle'')) fs1 of
        Inl e \<Rightarrow> (Some e, fs1)
      | Inr fs2 \<Rightarrow>
      (case save_numpy_folder (pjoin sf (''datasets/gt_sortings/'' @ key)) fs2 of
        Inl e \<Rightarrow> (Some e, fs2)
      | Inr fs3 \<Rightarrow> dump_datasets sf rest fs3)))"

text \<open>
  \<^verbatim>\<open>GroundTruthStudy.create(study_folder, datasets, cases, levels)\<close>: the result (the
  new study, or the exception) together with the disk as the call leaves it.
\<close>

definition create ::
  "externals \<Rightarrow> filesys \<Rightarrow> path \<Rightarrow> (string \<times> extractor \<times> extractor) list \<Rightarrow> cases
    \<Rightarrow> levels option \<Rightarrow> (error + study) \<times> filesys" where
  "create E fs study_folder dsets cs lv =
     (case check_case_keys cs lv of
        Inl e \<Rightarrow> (Inl e, fs)
      | Inr lv' \<Rightarrow>
      (case mkdir_parents study_folder fs of
        Inl e \<Rightarrow> (Inl e, fs)
      | Inr fs0 \<Rightarrow>
      (case mkdirs (layout_folders study_folder) fs0 of
        (Some e, fs1) \<Rightarrow> (Inl e, fs1)
      | (None, fs1) \<Rightarrow>
      (case dump_datasets study_folder dsets fs1 of
        (Some e, fs2) \<Rightarrow> (Inl e, fs2)
      | (None, fs2) \<Rightarrow>
      (case write_file (pjoin study_folder ''info.json'') (ContentJson (Some lv')) fs2 of
        Inl e \<Rightarrow> (Inl e, fs2)
      | Inr fs3 \<Rightarrow>
      (case write_file (pjoin study_folder ''cases.pickle'') (ContentCases cs) fs3 of
        Inl e \<Rightarrow> (Inl e, fs3)
      | Inr fs4 \<Rightarrow> (init E fs4 study_folder, fs4)))))))"

section \<open>Running the sorters\<close>

text \<open>
  \<^verbatim>\<open>
  def copy_sortings(self, case_keys=None, force=True):
      if case_keys is None:
          case_keys = self.cases.keys()
      for key in case_keys:
          sorting_folder = self.folder / "sortings" / self.key_to_str(key)
          sorter_folder = self.folder / "sorters" / self.key_to_str(key)
          log_file = self.folder / "sortings" / "run_logs" / f"{self.key_to_str(key)}.json"
          sorting = read_sorter_folder(sorter_folder, raise_error=False)
          if sorting is not None:
              if sorting_folder.exists():
                  if force:
                      shutil.rmtree(sorting_folder)
                  else:
                      continue
              sorting = sorting.save(format="numpy_folder", folder=sorting_folder)
              self.sortings[key] = sorting
              shutil.copyfile(sorter_folder / "spikeinterface_log.json", log_file)
  \<close>
  One pass of the loop body, then the loop. A procedure that changes the object and the
  disk returns the exception it raised, if any, with the object and the disk as it
  leaves them.
\<close>

definition sorter_folder_of :: "path \<Rightarrow> string \<Rightarrow> path" where
  "sorter_folder_of fo s = pjoin (pjoin fo ''sorters'') s"

definition log_file_of :: "path \<Rightarrow> string \<Rightarrow> path" where
  "log_file_of fo s = pjoin (pjoin (pjoin fo ''sortings'') ''run_logs'') (s @ ''.json'')"

definition copy_sortings_step ::
  "externals \<Rightarrow> bool \<Rightarrow> pykey \<Rightarrow> study \<times> filesys \<Rightarrow> error option \<times> study \<times> filesys" where
  "copy_sortings_step E force key w =
     (case w of (st, fs) \<Rightarrow>
      (case key_to_str key of
        Inl e \<Rightarrow> (Some e, st, fs)
      | Inr s \<Rightarrow>
      (case read_sorter_folder E fs (sorter_folder_of (folder st) s) of
        Inl e \<Rightarrow> (Some e, st, fs)
      | Inr None \<Rightarrow> (None, st, fs)
      | Inr (Some sorting) \<Rightarrow>
          if exists_path fs (sorting_folder_of (folder st) s) \<and> \<not> force then (None, st, fs)
          else
      (case (if exists_path fs (sorting_folder_of (folder st) s)
             then rmtree (sorting_folder_of (folder st) s) fs else Inr fs) of
        Inl e \<Rightarrow> (Some e, st, fs)
      | Inr fs1 \<Rightarrow>
      (case save_numpy_folder (sorting_folder_of (folder st) s) fs1 of
        Inl e \<Rightarrow> (Some e, st, fs1)
      | Inr fs2 \<Rightarrow>
      (case copyfile (pjoin (sorter_folder_of (folder st) s) ''spikeinterface_log.json'')
              (log_file_of (folder st) s) fs2 of
        Inl e \<Rightarrow> (Some e, st\<lparr>sortings := (sortings st)(key \<mapsto> Some sorting)\<rparr>, fs2)
      | Inr fs3 \<Rightarrow> (None, st\<lparr>sortings := (sortings st)(key \<mapsto> Some sorting)\<rparr>, fs3)))))))"

fun copy_sortings_loop ::
  "externals \<Rightarrow> bool \<Rightarrow> pykey list \<Rightarrow> study \<times> filesys \<Rightarrow> error option \<times> study \<times> filesys" where
  "copy_sortings_loop E force [] w = (None, w)"
| "copy_sortings_loop E force (key # rest) w =
     (case copy_sortings_step E force key w of
        (Some e, w') \<Rightarrow> (Some e, w')
      | (None, w') \<Rightarrow> copy_sortings_loop E force rest w')"

definition keys_or_all :: "study \<Rightarrow> pykey list option \<Rightarrow> pykey list" where
  "keys_or_all st case_keys = (case case_keys of None \<Rightarrow> map fst (cases st) | Some ks \<Rightarrow> ks)"

definition copy_sortings ::
  "externals \<Rightarrow> pykey list option \<Rightarrow> bool \<Rightarrow> study \<times> filesys \<Rightarrow> error option \<times> study \<times> filesys" where
  "copy_sortings E case_keys force w = copy_sortings_loop E force (keys_or_all (fst w) case_keys) w"

text \<open>
  The job description of one case:
  \<^verbatim>\<open>
  params = self.cases[key]["run_sorter_params"].copy()
  recording, _ = self.datasets[self.cases[key]["dataset"]]
  sorter_name = params.pop("sorter_name")
  job = dict(sorter_name=sorter_name, recording=recording, output_folder=sorter_folder)
  job.update(params)
  job["verbose"] = verbose
  \<close>
\<close>

definition build_job :: "study \<Rightarrow> bool \<Rightarrow> pykey \<Rightarrow> path \<Rightarrow> error + job" where
  "build_job st verbose key sorter_folder =
     (case map_of (cases st) key of
        None \<Rightarrow> Inl KeyError
      | Some c \<Rightarrow>
      (case run_sorter_params c of
        None \<Rightarrow> Inl KeyError
      | Some params \<Rightarrow>
      (case dataset c of
        None \<Rightarrow> Inl KeyError
      | Some d \<Rightarrow>
      (case datasets st d of
        None \<Rightarrow> Inl KeyError
      | Some (recording, gt) \<Rightarrow>
      (case params ''sorter_name'' of
        None \<Rightarrow> Inl KeyError
      | Some sorter_name \<Rightarrow>
          Inr (([''sorter_name'' \<mapsto> sorter_name,
                 ''recording'' \<mapsto> VExtractor recording,
                 ''output_folder'' \<mapsto> VPath sorter_folder]
                ++ params(''sorter_name'' := None))
               (''verbose'' \<mapsto> VBool verbose)))))))"

text \<open>
  How one pass of the loop of \<^verbatim>\<open>run_sorters\<close> ends: with the first \<^verbatim>\<open>continue\<close>
  (the sorting is already there), with the second \<^verbatim>\<open>continue\<close> (the sorter output was
  copied to the sortings folder), or with a job appended to \<^verbatim>\<open>job_list\<close>.
\<close>

datatype iteration = Skip_existing | Copied_from_sorter_folder | New_job job

text \<open>
  \<^verbatim>\<open>
  for key in case_keys:
      sorting_folder = self.folder / "sortings" / self.key_to_str(key)
      sorting_exists = sorting_folder.exists()
      sorter_folder = self.folder / "sorters" / self.key_to_str(key)
      sorter_folder_exists = sorting_folder.exists()
      if keep:
          if sorting_exists:
              continue
          if sorter_folder_exists:
              sorting = read_sorter_folder(sorter_folder, raise_error=False)
              if sorting is not None:
                  self.copy_sortings(case_keys=[key])
                  continue
      if sorting_exists:
          pass
      ...                                   # build_job
      job_list.append(job)
  \<close>
\<close>

definition run_sorters_step ::
  "externals \<Rightarrow> bool \<Rightarrow> bool \<Rightarrow> pykey \<Rightarrow> study \<times> filesys
    \<Rightarrow> (error + iteration) \<times> study \<times> filesys" where
  "run_sorters_step E keep verbose key w =
     (case w of (st, fs) \<Rightarrow>
      (case key_to_str key of
        Inl e \<Rightarrow> (Inl e, st, fs)
      | Inr s \<Rightarrow>
          (let sorting_folder = sorting_folder_of (folder st) s;
               sorting_exists = exists_path fs sorting_folder;
               sorter_folder = sorter_folder_of (folder st) s;
               sorter_folder_exists = exists_path fs sorting_folder;
               append_job = (\<lambda>(st', fs').
                  case build_job st' verbose key sorter_folder of
                    Inl e \<Rightarrow> (Inl e, st', fs')
                  | Inr job \<Rightarrow> (Inr (New_job job), st', fs'))
           in
           if keep \<and> sorting_exists then (Inr Skip_existing, st, fs)
           else if keep \<and> sorter_folder_exists then
             (case read_sorter_folder E fs sorter_folder of
                Inl e \<Rightarrow> (Inl e, st, fs)
              | Inr None \<Rightarrow> append_job (st, fs)
              | Inr (Some sorting) \<Rightarrow>
                  (case copy_sortings E (Some [key]) True (st, fs) of
                     (Some e, w') \<Rightarrow> (Inl e, w')
                   | (None, w') \<Rightarrow> (Inr Copied_from_sorter_folder, w')))
           else append_job (st, fs))))"

fun run_sorters_loop ::
  "externals \<Rightarrow> bool \<Rightarrow> bool \<Rightarrow> pykey list \<Rightarrow> job list \<Rightarrow> study \<times> filesys
    \<Rightarrow> (error + job list) \<times> study \<times> filesys" where
  "run_sorters_loop E keep verbose [] job_list w = (Inr job_list, w)"
| "run_sorters_loop E keep verbose (key # rest) job_list w =
     (case run_sorters_step E keep verbose key w of
        (Inl e, w') \<Rightarrow> (Inl e, w')
      | (Inr (New_job job), w') \<Rightarrow> run_sorters_loop E keep verbose rest (job_list @ [job]) w'
      | (Inr other, w') \<Rightarrow> run_sorters_loop E keep verbose rest job_list w')"

text \<open>
  \<^verbatim>\<open>
  def run_sorters(self, case_keys=None, engine='loop', engine_kwargs={}, keep=True, verbose=False):
      if case_keys is None:
          case_keys = self.cases.keys()
      job_list = []
      for key in case_keys: ...
      run_sorter_jobs(job_list, engine=engine, engine_kwargs=engine_kwargs, return_output=False)
      if engine not in ("slurm", ):
          self.copy_sortings(case_keys)
  \<close>
\<close>

definition run_sorters ::
  "externals \<Rightarrow> pykey list option \<Rightarrow> string \<Rightarrow> params \<Rightarrow> bool \<Rightarrow> bool \<Rightarrow> study \<times> filesys
    \<Rightarrow> error option \<times> study \<times> filesys" where
  "run_sorters E case_keys engine engine_kwargs keep verbose w =
     (case run_sorters_loop E keep verbose (keys_or_all (fst w) case_keys) [] w of
        (Inl e, w') \<Rightarrow> (Some e, w')
      | (Inr job_list, st', fs') \<Rightarrow>
          (case run_sorter_jobs E job_list engine engine_kwargs fs' of
             (Some e, fs'') \<Rightarrow> (Some e, st', fs'')
           | (None, fs'') \<Rightarrow>
               if engine \<noteq> ''slurm''
               then copy_sortings E (Some (keys_or_all (fst w) case_keys)) True (st', fs'')
               else (None, st', fs'')))"

text \<open>
  The job list as the specification words it: going through the keys in order, no job
  for a key whose sortings folder exists, and otherwise the job description of the case.
\<close>

definition queued_jobs :: "study \<Rightarrow> filesys \<Rightarrow> bool \<Rightarrow> pykey list \<Rightarrow> job list" where
  "queued_jobs st fs verbose keys =
     concat (map (\<lambda>key.
        case key_to_str key of
          Inl e \<Rightarrow> []
        | Inr s \<Rightarrow>
            if exists_path fs (sorting_folder_of (folder st) s) then []
            else (case build_job st verbose key (sorter_folder_of (folder st) s) of
                    Inl e \<Rightarrow> []
                  | Inr job \<Rightarrow> [job])) keys)"

section \<open>Comparisons, waveforms and unit counts\<close>

text \<open>
  \<^verbatim>\<open>
  for key in case_keys:
      dataset_key = self.cases[key]["dataset"]
      _, gt_sorting = self.datasets[dataset_key]
      sorting = self.sortings[key]
      if sorting is None:
          self.comparisons[key] = None
          continue
      comp = comparison_class(gt_sorting, sorting, **kwargs)
      self.comparisons[key] = comp
  \<close>
  \<open>cmp\<close> is the \<^verbatim>\<open>comparison_class\<close> argument together with its keyword arguments.
\<close>

definition run_comparisons_step ::
  "(extractor \<Rightarrow> extractor \<Rightarrow> error + comparison) \<Rightarrow> pykey \<Rightarrow> study \<Rightarrow> error option \<times> study" where
  "run_comparisons_step cmp key st =
     (case map_of (cases st) key of
        None \<Rightarrow> (Some KeyError, st)
      | Some c \<Rightarrow>
      (case dataset c of
        None \<Rightarrow> (Some KeyError, st)
      | Some dataset_key \<Rightarrow>
      (case datasets st dataset_key of
        None \<Rightarrow> (Some KeyError, st)
      | Some (rec, gt_sorting) \<Rightarrow>
      (case sortings st key of
        None \<Rightarrow> (Some KeyError, st)
      | Some None \<Rightarrow> (None, st\<lparr>comparisons := (comparisons st)(key \<mapsto> None)\<rparr>)
      | Some (Some sorting) \<Rightarrow>
          (case cmp gt_sorting sorting of
             Inl e \<Rightarrow> (Some e, st)
           | Inr comp' \<Rightarrow> (None, st\<lparr>comparisons := (comparisons st)(key \<mapsto> Some comp')\<rparr>))))))"

fun run_comparisons_loop ::
  "(extractor \<Rightarrow> extractor \<Rightarrow> error + comparison) \<Rightarrow> pykey list \<Rightarrow> study \<Rightarrow> error option \<times> study" where
  "run_comparisons_loop cmp [] st = (None, st)"
| "run_comparisons_loop cmp (key # rest) st =
     (case run_comparisons_step cmp key st of
        (Some e, st') \<Rightarrow> (Some e, st')
      | (None, st') \<Rightarrow> run_comparisons_loop cmp rest st')"

definition run_comparisons ::
  "(extractor \<Rightarrow> extractor \<Rightarrow> error + comparison) \<Rightarrow> pykey list option \<Rightarrow> study
    \<Rightarrow> error option \<times> study" where
  "run_comparisons cmp case_keys st = run_comparisons_loop cmp (keys_or_all st case_keys) st"

text \<open>
  \<^verbatim>\<open>
  def extract_waveforms_gt(self, case_keys=None, **extract_kwargs):
      if case_keys is None:
          case_keys = self.cases.keys()
      base_folder = self.folder / "waveforms"
      base_folder.mkdir(exist_ok=True)
      for key in case_keys:
          dataset_key = self.cases[key]["dataset"]
          recording, gt_sorting = self.datasets[dataset_key]
          wf_folder = base_folder / self.key_to_str(key)
          we = extract_waveforms(recording, gt_sorting, folder=wf_folder)
  \<close>
\<close>

fun extract_waveforms_loop ::
  "externals \<Rightarrow> study \<Rightarrow> path \<Rightarrow> pykey list \<Rightarrow> filesys \<Rightarrow> error option \<times> filesys" where
  "extract_waveforms_loop E st base_folder [] fs = (None, fs)"
| "extract_waveforms_loop E st base_folder (key # rest) fs =
     (case map_of (cases st) key of
        None \<Rightarrow> (Some KeyError, fs)
      | Some c \<Rightarrow>
      (case dataset c of
        None \<Rightarrow> (Some KeyError, fs)
      | Some dataset_key \<Rightarrow>
      (case datasets st dataset_key of
        None \<Rightarrow> (Some KeyError, fs)
      | Some (recording, gt_sorting) \<Rightarrow>
      (case key_to_str key of
        Inl e \<Rightarrow> (Some e, fs)
      | Inr s \<Rightarrow>
      (case extract_waveforms E recording gt_sorting (pjoin base_folder s) fs of
        (Some e, fs') \<Rightarrow> (Some e, fs')
      | (None, fs') \<Rightarrow> extract_waveforms_loop E st base_folder rest fs')))))"

definition extract_waveforms_gt ::
  "externals \<Rightarrow> pykey list option \<Rightarrow> study \<Rightarrow> filesys \<Rightarrow> error option \<times> filesys" where
  "extract_waveforms_gt E case_keys st fs =
     (case mkdir_exist_ok (pjoin (folder st) ''waveforms'') fs of
        Inl e \<Rightarrow> (Some e, fs)
      | Inr fs' \<Rightarrow>
          extract_waveforms_loop E st (pjoin (folder st) ''waveforms'')
            (keys_or_all st case_keys) fs')"

text \<open>
  A pandas \<^verbatim>\<open>DataFrame\<close> of counts: row labels, column labels, and the cells that
  have been set (an unset cell is \<^verbatim>\<open>NaN\<close>). \<^verbatim>\<open>df.loc[key, col] = v\<close> sets one cell;
  pandas enlarges the frame when the row or the column label is not there yet.
\<close>

record dataframe =
  df_index :: "pykey list"
  df_columns :: "string list"
  df_cells :: "pykey \<Rightarrow> string \<rightharpoonup> nat"

definition loc_set :: "pykey \<Rightarrow> string \<Rightarrow> nat \<Rightarrow> dataframe \<Rightarrow> dataframe" where
  "loc_set key col v df =
     df\<lparr>df_index := (if key \<in> set (df_index df) then df_index df else df_index df @ [key]),
        df_columns := (if col \<in> set (df_columns df) then df_columns df else df_columns df @ [col]),
        df_cells := (df_cells df)(key := (df_cells df key)(col \<mapsto> v))\<rparr>"

definition base_columns :: "string list" where
  "base_columns = [''num_gt'', ''num_sorter'', ''num_well_detected'', ''num_redundant'',
     ''num_overmerged'']"

definition exhaustive_columns :: "string list" where
  "exhaustive_columns = [''num_false_positive'', ''num_bad'']"

text \<open>
  \<^verbatim>\<open>
  for key in case_keys:
      comp = self.comparisons.get(key, None)
      assert comp is not None, "You need to do study.run_comparisons() first"
      gt_sorting = comp.sorting1
      sorting = comp.sorting2
      count_units.loc[key, "num_gt"] = len(gt_sorting.get_unit_ids())
      count_units.loc[key, "num_sorter"] = len(sorting.get_unit_ids())
      count_units.loc[key, "num_well_detected"] = comp.count_well_detected_units(well_detected_score)
      if comp.exhaustive_gt:
          count_units.loc[key, "num_overmerged"] = comp.count_overmerged_units(overmerged_score)
          count_units.loc[key, "num_redundant"] = comp.count_redundant_units(redundant_score)
          count_units.loc[key, "num_false_positive"] = comp.count_false_positive_units(redundant_score)
          count_units.loc[key, "num_bad"] = comp.count_bad_units()
  \<close>
\<close>

definition count_units_row ::
  "externals \<Rightarrow> rat option \<Rightarrow> rat option \<Rightarrow> rat option \<Rightarrow> pykey \<Rightarrow> comparison
    \<Rightarrow> dataframe \<Rightarrow> dataframe" where
  "count_units_row E well_detected_score redundant_score overmerged_score key c df =
     (let df1 = loc_set key ''num_gt'' (length (get_unit_ids E (sorting1 c))) df;
          df2 = loc_set key ''num_sorter'' (length (get_unit_ids E (sorting2 c))) df1;
          df3 = loc_set key ''num_well_detected''
                  (count_well_detected_units c well_detected_score) df2
      in
      if exhaustive_gt c then
        loc_set key ''num_bad'' (count_bad_units c)
          (loc_set key ''num_false_positive'' (count_false_positive_units c redundant_score)
            (loc_set key ''num_redundant'' (count_redundant_units c redundant_score)
              (loc_set key ''num_overmerged'' (count_overmerged_units c overmerged_score) df3)))
      else df3)"

fun count_units_loop ::
  "externals \<Rightarrow> study \<Rightarrow> rat option \<Rightarrow> rat option \<Rightarrow> rat option \<Rightarrow> pykey list
    \<Rightarrow> dataframe \<Rightarrow> error + dataframe" where
  "count_units_loop E st wds rds oms [] df = Inr df"
| "count_units_loop E st wds rds oms (key # rest) df =
     (case comparisons st key of
        Some (Some c) \<Rightarrow>
          count_units_loop E st wds rds oms rest (count_units_row E wds rds oms key c df)
      | _ \<Rightarrow> Inl AssertionError)"

text \<open>
  \<^verbatim>\<open>
  def get_count_units(self, case_keys=None, well_detected_score=None, redundant_score=None,
                      overmerged_score=None):
      if case_keys is None:
          case_keys = list(self.cases.keys())
      if isinstance(case_keys[0], str):
          index = pd.Index(case_keys, name=self.levels)
      else:
          index = pd.MultiIndex.from_tuples(case_keys, names=self.levels)
      columns = ["num_gt", "num_sorter", "num_well_detected", "num_redundant", "num_overmerged"]
      comp = self.comparisons[case_keys[0]]
      if comp.exhaustive_gt:
          columns.extend(["num_false_positive", "num_bad"])
      count_units = pd.DataFrame(index=index, columns=columns, dtype=int)
      for key in case_keys: ...
      return count_units
  \<close>
\<close>

definition get_count_units ::
  "externals \<Rightarrow> study \<Rightarrow> pykey list option \<Rightarrow> rat option \<Rightarrow> rat option \<Rightarrow> rat option
    \<Rightarrow> error + dataframe" where
  "get_count_units E st case_keys wds rds oms =
     (case keys_or_all st case_keys of
        [] \<Rightarrow> Inl IndexError
      | key0 # rest \<Rightarrow>
      (case levels st of
        None \<Rightarrow> Inl AttributeError
      | Some lv \<Rightarrow>
      (case (if is_str key0 then pd_Index E (key0 # rest) lv
             else pd_MultiIndex_from_tuples E (key0 # rest) lv) of
        Inl e \<Rightarrow> Inl e
      | Inr index \<Rightarrow>
      (case comparisons st key0 of
        None \<Rightarrow> Inl KeyError
      | Some None \<Rightarrow> Inl AttributeError
      | Some (Some c0) \<Rightarrow>
          count_units_loop E st wds rds oms (key0 # rest)
            \<lparr>df_index = index,
             df_columns = base_columns @ (if exhaustive_gt c0 then exhaustive_columns else []),
             df_cells = (\<lambda>k. Map.empty)\<rparr>))))"

section \<open>The sorting summary widget\<close>

text \<open>
  The views of the \<^verbatim>\<open>sortingview\<close> backend. A leaf view is identified by the call that
  builds it and the arguments \<^verbatim>\<open>plot_sortingview\<close> passes (the keyword arguments
  \<^verbatim>\<open>hide_unit_selector=True, generate_url=False, display=False, backend="sortingview"\<close>
  are the same in every call). \<^verbatim>\<open>vv.Splitter\<close> and \<^verbatim>\<open>vv.LayoutItem\<close> are the layout nodes;
  \<open>stretch\<close> is the optional keyword of \<^verbatim>\<open>LayoutItem\<close>.
\<close>

datatype direction = Horizontal | Vertical

text \<open>One \<^verbatim>\<open>vv.UnitSimilarityScore(unit_id1, unit_id2, similarity)\<close>.\<close>

datatype similarity_score = UnitSimilarityScore nat nat rat

datatype view =
    Amplitudes extractor "nat list" "nat option"
  | UnitTemplates extractor "nat list" "string option"
  | CrossCorrelograms extractor "nat list"
  | UnitLocations extractor "nat list"
  | UnitsTable extractor "string list option" "similarity_score list"
  | SortingCuration2 "string list option"
  | Splitter direction layout_item layout_item
and layout_item = LayoutItem view "rat option"

text \<open>
  The plot data of the widget. The waveform extractor is identified by its sorting;
  unit ids are numbers, already serializable (\<^verbatim>\<open>make_serializable\<close> leaves them as they
  are).
\<close>

record data_plot =
  waveform_extractor :: extractor
  unit_ids :: "nat list"
  sparsity :: "string option"
  unit_table_properties :: "string list option"
  curation :: bool
  label_choices :: "string list option"
  max_amplitudes_per_unit :: "nat option"

text \<open>
  \<^verbatim>\<open>
  similarity_scores = []
  for i1, u1 in enumerate(unit_ids):
      for i2, u2 in enumerate(unit_ids):
          similarity_scores.append(
              vv.UnitSimilarityScore(unit_id1=u1, unit_id2=u2,
                                     similarity=similarity[i1, i2].astype("float32")))
  \<close>
  \<open>similarity\<close> is the matrix of the template similarity widget, built for the same unit
  ids, and \<open>to_float32\<close> the conversion of one entry.
\<close>

definition similarity_scores ::
  "(nat \<Rightarrow> nat \<Rightarrow> rat) \<Rightarrow> (rat \<Rightarrow> rat) \<Rightarrow> nat list \<Rightarrow> similarity_score list" where
  "similarity_scores similarity to_float32 us =
     concat (map (\<lambda>(i1, u1).
               map (\<lambda>(i2, u2). UnitSimilarityScore u1 u2 (to_float32 (similarity i1 i2)))
                 (enumerate 0 us))
             (enumerate 0 us))"

text \<open>
  The layout that \<^verbatim>\<open>plot_sortingview\<close> assigns to \<^verbatim>\<open>self.view\<close> (the method also prints
  the shape of the similarity matrix and stores the URL that \<^verbatim>\<open>handle_display_and_url\<close>
  returns for the view; neither changes the view):
  \<^verbatim>\<open>
  if dp.curation:
      v_curation = vv.SortingCuration2(label_choices=dp.label_choices)
      v1 = vv.Splitter(direction="vertical", item1=vv.LayoutItem(v_units_table),
                       item2=vv.LayoutItem(v_curation))
  else:
      v1 = v_units_table
  v2 = vv.Splitter(
      direction="horizontal",
      item1=vv.LayoutItem(v_unit_locations, stretch=0.2),
      item2=vv.LayoutItem(
          vv.Splitter(
              direction="horizontal",
              item1=vv.LayoutItem(v_average_waveforms),
              item2=vv.LayoutItem(
                  vv.Splitter(
                      direction="vertical",
                      item1=vv.LayoutItem(v_spike_amplitudes),
                      item2=vv.LayoutItem(v_cross_correlograms))))))
  self.view = vv.Splitter(direction="horizontal", item1=vv.LayoutItem(v1), item2=vv.LayoutItem(v2))
  \<close>
\<close>

definition plot_sortingview ::
  "(extractor \<Rightarrow> nat list \<Rightarrow> nat \<Rightarrow> nat \<Rightarrow> rat) \<Rightarrow> (rat \<Rightarrow> rat) \<Rightarrow> data_plot \<Rightarrow> view" where
  "plot_sortingview template_similarity to_float32 dp =
     (let we = waveform_extractor dp;
          us = unit_ids dp;
          v_spike_amplitudes = Amplitudes we us (max_amplitudes_per_unit dp);
          v_average_waveforms = UnitTemplates we us (sparsity dp);
          v_cross_correlograms = CrossCorrelograms we us;
          v_unit_locations = UnitLocations we us;
          scores = similarity_scores (template_similarity we us) to_float32 us;
          v_units_table = UnitsTable (waveform_extractor dp) (unit_table_properties dp) scores;
          v1 = (if curation dp
                then Splitter Vertical (LayoutItem v_units_table None)
                       (LayoutItem (SortingCuration2 (label_choices dp)) None)
                else v_units_table);
          v2 = Splitter Horizontal
                 (LayoutItem v_unit_locations (Some (2 / 10)))
                 (LayoutItem
                    (Splitter Horizontal
                       (LayoutItem v_average_waveforms None)
                       (LayoutItem
                          (Splitter Vertical
                             (LayoutItem v_spike_amplitudes None)
                             (LayoutItem v_cross_correlograms None))
                          None))
                    None)
      in Splitter Horizontal (LayoutItem v1 None) (LayoutItem v2 None))"

text \<open>The leaf views of a layout, left to right.\<close>

fun leaves :: "view \<Rightarrow> view list" and item_leaves :: "layout_item \<Rightarrow> view list" where
  "leaves (Splitter d a b) = item_leaves a @ item_leaves b"
| "leaves (Amplitudes we us m) = [Amplitudes we us m]"
| "leaves (UnitTemplates we us sp) = [UnitTemplates we us sp]"
| "leaves (CrossCorrelograms we us) = [CrossCorrelograms we us]"
| "leaves (UnitLocations we us) = [UnitLocations we us]"
| "leaves (UnitsTable so props scores) = [UnitsTable so props scores]"
| "leaves (SortingCuration2 lc) = [SortingCuration2 lc]"
| "item_leaves (LayoutItem v s) = leaves v"

section \<open>Example inputs\<close>

text \<open>
  A study folder \<^verbatim>\<open>/study\<close>, an empty disk, and external libraries that load a fixed
  extractor, report every sorter folder as failed, run no job and build the row labels
  from the keys as they are.
\<close>

definition ex_folder :: path where
  "ex_folder = Path True [''study'']"

definition ex_disk :: filesys where
  "ex_disk = \<lparr>dirs = [], files = []\<rparr>"

definition ex_env :: externals where
  "ex_env =
     \<lparr>load_extractor = (\<lambda>fs p. Inr (Extractor ''loaded'')),
      read_sorter_folder = (\<lambda>fs p. Inr None),
      run_sorter_jobs = (\<lambda>job_list engine engine_kwargs fs. (None, fs)),
      extract_waveforms = (\<lambda>recording sorting p fs. (None, fs)),
      get_unit_ids = (\<lambda>x. []),
      pd_Index = (\<lambda>ks lv. Inr ks),
      pd_MultiIndex_from_tuples = (\<lambda>ks lv. Inr ks)\<rparr>"

text \<open>One case on the dataset \<^verbatim>\<open>"rec0"\<close>, to be sorted by \<^verbatim>\<open>"tdc"\<close>.\<close>

definition ex_case :: case_spec where
  "ex_case = \<lparr>dataset = Some ''rec0'', run_sorter_params = Some [''sorter_name'' \<mapsto> VStr ''tdc'']\<rparr>"

text \<open>
  The disk of a study with the cases \<^verbatim>\<open>"a"\<close> and \<^verbatim>\<open>"b"\<close> on one dataset, where only
  \<^verbatim>\<open>"a"\<close> has a sortings folder.
\<close>

definition ex_study_disk :: filesys where
  "ex_study_disk =
     \<lparr>dirs =
        [Path True [''study''],
         Path True [''study'', ''datasets''],
         Path True [''study'', ''datasets'', ''recordings''],
         Path True [''study'', ''datasets'', ''gt_sortings''],
         Path True [''study'', ''datasets'', ''gt_sortings'', ''rec0''],
         Path True [''study'', ''sorters''],
         Path True [''study'', ''sortings''],
         Path True [''study'', ''sortings'', ''run_logs''],
         Path True [''study'', ''metrics''],
         Path True [''study'', ''sortings'', ''a'']],
      files =
        [(Path True [''study'', ''cases.pickle''],
          ContentCases [(KStr ''a'', ex_case), (KStr ''b'', ex_case)]),
         (Path True [''study'', ''info.json''], ContentJson (Some (LevelStr ''level0''))),
         (Path True [''study'', ''datasets'', ''gt_sortings'', ''rec0.pickle''],
          ContentOpaque ''gt0''),
         (Path True [''study'', ''datasets'', ''recordings'', ''rec0.pickle''],
          ContentOpaque ''rec0'')]\<rparr>"

text \<open>A comparison object with all counts zero, and a comparison class that builds it.\<close>

definition ex_comparison :: "extractor \<Rightarrow> extractor \<Rightarrow> bool \<Rightarrow> comparison" where
  "ex_comparison gt_sorting sorting exhaustive =
     \<lparr>sorting1 = gt_sorting, sorting2 = sorting, exhaustive_gt = exhaustive,
      count_well_detected_units = (\<lambda>score. 0),
      count_overmerged_units = (\<lambda>score. 0),
      count_redundant_units = (\<lambda>score. 0),
      count_false_positive_units = (\<lambda>score. 0),
      count_bad_units = 0\<rparr>"

definition ex_compare :: "extractor \<Rightarrow> extractor \<Rightarrow> error + comparison" where
  "ex_compare gt_sorting sorting = Inr (ex_comparison gt_sorting sorting False)"

text \<open>
  The same study after the sorter of case \<^verbatim>\<open>"b"\<close> has written its output folder
  \<^verbatim>\<open>sorters/b\<close>, with a library that reads a sorting from every sorter folder.
\<close>

definition ex_sorted_disk :: filesys where
  "ex_sorted_disk = ex_study_disk\<lparr>dirs := dirs ex_study_disk @ [Path True [''study'', ''sorters'', ''b'']]\<rparr>"

definition ex_env_sorted :: externals where
  "ex_env_sorted = ex_env\<lparr>read_sorter_folder := (\<lambda>fs p. Inr (Some (Extractor ''sorted'')))\<rparr>"

text \<open>
  A study in which both cases have a sorting, compared in two calls of
  \<^verbatim>\<open>run_comparisons\<close>: case \<^verbatim>\<open>"a"\<close> without and then case \<^verbatim>\<open>"b"\<close> with
  \<^verbatim>\<open>exhaustive_gt=True\<close>.
\<close>

definition ex_both_disk :: filesys where
  "ex_both_disk = ex_study_disk\<lparr>dirs := dirs ex_study_disk @ [Path True [''study'', ''sortings'', ''b'']]\<rparr>"

definition ex_compare_exhaustive :: "extractor \<Rightarrow> extractor \<Rightarrow> error + comparison" where
  "ex_compare_exhaustive gt_sorting sorting = Inr (ex_comparison gt_sorting sorting True)"

definition ex_mixed_study :: study where
  "ex_mixed_study =
     snd (run_comparisons ex_compare_exhaustive (Some [KStr ''b''])
       (snd (run_comparisons ex_compare (Some [KStr ''a''])
         (projr (init ex_env ex_both_disk ex_folder)))))"

text \<open>
  The plot data of a summary with curation for the units 7 and 9, and a similarity
  matrix with ones on the diagonal.
\<close>

definition ex_plot :: data_plot where
  "ex_plot =
     \<lparr>waveform_extractor = Extractor ''we'', unit_ids = [7, 9], sparsity = None,
      unit_table_properties = None, curation = True, label_choices = Some [''good'', ''noise''],
      max_amplitudes_per_unit = None\<rparr>"

definition ex_similarity :: "extractor \<Rightarrow> nat list \<Rightarrow> nat \<Rightarrow> nat \<Rightarrow> rat" where
  "ex_similarity we us i1 i2 = (if i1 = i2 then 1 else 0)"

text \<open>The dataset \<^verbatim>\<open>"rec0"\<close> that the example cases name.\<close>

definition ex_datasets :: "(string \<times> extractor \<times> extractor) list" where
  "ex_datasets = [(''rec0'', Extractor ''rec0'', Extractor ''gt0'')]"

section \<open>Facts about the file system operations\<close>

lemma mkdir_result:
  "mkdir p fs = Inr fs' \<Longrightarrow> dirs fs' = dirs fs @ [p] \<and> files fs' = files fs"
  by (auto simp add: mkdir_def split: if_splits)

lemma make_ancestors_grows:
  "make_ancestors a dn todo fs = Inr fs' \<Longrightarrow> set (dirs fs) \<subseteq> set (dirs fs') \<and> files fs' = files fs"
proof (induction a dn todo fs rule: make_ancestors.induct)
  case (1 a dn fs)
  then show ?case by simp
next
  case (2 a dn c cs fs)
  then show ?case
    by (auto simp add: Let_def split: if_splits)
qed

lemma mkdir_parents_result:
  assumes "mkdir_parents p fs = Inr fs'"
  shows "set (dirs fs) \<subseteq> set (dirs fs') \<and> p \<in> set (dirs fs') \<and> files fs' = files fs"
proof (cases p)
  case (Path a ps)
  with assms obtain fs1 where
    anc: "make_ancestors a [] (butlast ps) fs = Inr fs1" and mk: "mkdir (Path a ps) fs1 = Inr fs'"
    by (auto split: if_splits sum.splits)
  from make_ancestors_grows[OF anc] mkdir_result[OF mk] Path show ?thesis by auto
qed

lemma write_file_result:
  "write_file p c fs = Inr fs' \<Longrightarrow>
     dirs fs' = dirs fs \<and> files fs' = (p, c) # filter (\<lambda>(q, _). q \<noteq> p) (files fs) \<and> \<not> is_dir fs p"
  by (auto simp add: write_file_def split: if_splits)

lemma mkdirs_result:
  "mkdirs ps fs = (None, fs') \<Longrightarrow>
     set ps \<subseteq> set (dirs fs') \<and> set (dirs fs) \<subseteq> set (dirs fs') \<and> files fs' = files fs"
proof (induction ps arbitrary: fs)
  case Nil
  then show ?case by simp
next
  case (Cons p ps)
  then obtain fs1 where mk: "mkdir p fs = Inr fs1" and rest: "mkdirs ps fs1 = (None, fs')"
    by (auto split: sum.splits)
  from Cons.IH[OF rest] mkdir_result[OF mk] show ?case by auto
qed

lemma dump_to_pickle_dirs: "dump_to_pickle x p fs = Inr fs' \<Longrightarrow> dirs fs' = dirs fs"
  by (cases x) (simp add: write_file_result)

lemma save_numpy_folder_grows:
  "save_numpy_folder p fs = Inr fs' \<Longrightarrow> set (dirs fs) \<subseteq> set (dirs fs') \<and> p \<in> set (dirs fs')"
  by (auto simp add: save_numpy_folder_def dest: mkdir_parents_result split: if_splits)

lemma dump_datasets_grows:
  "dump_datasets sf ds fs = (None, fs') \<Longrightarrow> set (dirs fs) \<subseteq> set (dirs fs')"
proof (induction sf ds fs rule: dump_datasets.induct)
  case (1 sf fs)
  then show ?case by simp
next
  case (2 sf key rec gt_sorting rest fs)
  from "2.prems" obtain fs1 fs2 fs3 where
    s1: "dump_to_pickle rec (pjoin sf (''datasets/recordings/'' @ key @ ''.pickle'')) fs = Inr fs1" and
    s2: "dump_to_pickle gt_sorting (pjoin sf (''datasets/gt_sortings/'' @ key @ ''.pickle'')) fs1 = Inr fs2" and
    s3: "save_numpy_folder (pjoin sf (''datasets/gt_sortings/'' @ key)) fs2 = Inr fs3" and
    s4: "dump_datasets sf rest fs3 = (None, fs')" and
    ok: "CHR ''/'' \<notin> set key" "CHR 0x5C \<notin> set key"
    by (auto split: if_splits sum.splits)
  from "2.IH"[OF ok s1 s2 s3 s4] dump_to_pickle_dirs[OF s1] dump_to_pickle_dirs[OF s2]
    save_numpy_folder_grows[OF s3]
  show ?case by auto
qed

lemma map_of_filter_key:
  "map_of (filter (\<lambda>(k, v). k \<noteq> p) xs) q = (if q = p then None else map_of xs q)"
  by (induction xs) auto

lemma write_file_read_same: "write_file p c fs = Inr fs' \<Longrightarrow> read_file fs' p = Inr c"
  by (auto simp add: write_file_def read_file_def is_dir_def split: if_splits)

lemma write_file_read_other:
  "write_file p c fs = Inr fs' \<Longrightarrow> q \<noteq> p \<Longrightarrow> read_file fs' q = read_file fs q"
  by (auto simp add: write_file_def read_file_def is_dir_def map_of_filter_key split: if_splits)

lemma is_dir_mono: "set (dirs fs) \<subseteq> set (dirs fs') \<Longrightarrow> is_dir fs p \<Longrightarrow> is_dir fs' p"
  by (auto simp add: is_dir_def)

lemma pjoin_info_cases: "pjoin sf ''info.json'' \<noteq> pjoin sf ''cases.pickle''"
  by (cases sf) (simp add: comps_def)


lemma scan_folder_folder: "scan_folder E fs st = Inr st' \<Longrightarrow> folder st' = folder st"
  by (auto simp add: scan_folder_def split: if_splits sum.splits)

lemma init_folder: "init E fs sf = Inr st \<Longrightarrow> folder st = sf"
  by (auto simp add: init_def fresh_study_def dest: scan_folder_folder)

lemma create_steps:
  assumes "create E fs sf ds cs lv = (Inr st, fs')"
  obtains lv' fs0 fs1 fs2 fs3 where
    "check_case_keys cs lv = Inr lv'"
    "mkdir_parents sf fs = Inr fs0"
    "mkdirs (layout_folders sf) fs0 = (None, fs1)"
    "dump_datasets sf ds fs1 = (None, fs2)"
    "write_file (pjoin sf ''info.json'') (ContentJson (Some lv')) fs2 = Inr fs3"
    "write_file (pjoin sf ''cases.pickle'') (ContentCases cs) fs3 = Inr fs'"
    "init E fs' sf = Inr st"
  using assms
  by (auto simp add: create_def split: sum.splits prod.splits option.splits)

lemma split_on_nonempty: "split_on c xs \<noteq> []"
  by (induction xs) (auto split: list.splits)

lemma split_on_other:
  "x \<noteq> c \<Longrightarrow> split_on c (x # xs) = (x # hd (split_on c xs)) # tl (split_on c xs)"
  using split_on_nonempty[of c xs] by (cases "split_on c xs") auto

lemma split_on_sep: "split_on c (c # xs) = [] # split_on c xs"
  by simp

lemma comps_datasets: "comps (''datasets/'' @ x) = ''datasets'' # comps x"
  by (simp add: comps_def split_on_other split_on_sep del: split_on.simps)

lemma pjoin_datasets:
  "pjoin (Path a ps) (''datasets/'' @ x) = Path a (ps @ ''datasets'' # comps x)"
  using comps_datasets[of x] by simp

lemma pjoin_waveforms: "pjoin (Path a ps) ''waveforms'' = Path a (ps @ [''waveforms''])"
  by (simp add: comps_def)

lemma write_file_exists_other:
  "write_file p c fs = Inr fs' \<Longrightarrow> q \<noteq> p \<Longrightarrow> exists_path fs' q = exists_path fs q"
  by (auto simp add: write_file_def exists_path_def is_dir_def is_file_def image_iff
      split: if_splits)

lemma mkdir_exists_other:
  "mkdir p fs = Inr fs' \<Longrightarrow> q \<noteq> p \<Longrightarrow> exists_path fs' q = exists_path fs q"
  by (auto simp add: mkdir_def exists_path_def is_dir_def is_file_def split: if_splits)

lemma make_ancestors_exists_other:
  assumes "make_ancestors a dn todo fs = Inr fs'"
    and "\<forall>k. 0 < k \<and> k \<le> length todo \<longrightarrow> q \<noteq> Path a (dn @ take k todo)"
  shows "exists_path fs' q = exists_path fs q"
  using assms
proof (induction a dn todo fs rule: make_ancestors.induct)
  case (1 a dn fs)
  then show ?case by simp
next
  case (2 a dn c cs fs)
  have here: "q \<noteq> Path a (dn @ [c])"
    using "2.prems"(2)[rule_format, of 1] by simp
  have later: "\<forall>k. 0 < k \<and> k \<le> length cs \<longrightarrow> q \<noteq> Path a ((dn @ [c]) @ take k cs)"
  proof (intro allI impI)
    fix k assume "0 < k \<and> k \<le> length cs"
    then show "q \<noteq> Path a ((dn @ [c]) @ take k cs)"
      using "2.prems"(2)[rule_format, of "Suc k"] by simp
  qed
  from "2.prems"(1) have nf: "\<not> is_file fs (Path a (dn @ [c]))"
    by (auto simp add: Let_def split: if_splits)
  show ?case
  proof (cases "is_dir fs (Path a (dn @ [c]))")
    case True
    with "2.prems"(1) nf have rec: "make_ancestors a (dn @ [c]) cs fs = Inr fs'"
      by (simp add: Let_def)
    from "2.IH"(1)[OF refl nf True rec later] show ?thesis .
  next
    case False
    let ?fs1 = "fs\<lparr>dirs := dirs fs @ [Path a (dn @ [c])]\<rparr>"
    from False "2.prems"(1) nf have rec: "make_ancestors a (dn @ [c]) cs ?fs1 = Inr fs'"
      by (simp add: Let_def)
    have "exists_path fs' q = exists_path ?fs1 q"
      by (rule "2.IH"(2)[OF refl nf False rec later])
    also have "\<dots> = exists_path fs q"
      using here by (auto simp add: exists_path_def is_dir_def is_file_def)
    finally show ?thesis .
  qed
qed

lemma mkdir_parents_exists_other:
  assumes "mkdir_parents (Path a ps) fs = Inr fs'"
    and "\<forall>k. 0 < k \<and> k \<le> length ps \<longrightarrow> q \<noteq> Path a (take k ps)"
  shows "exists_path fs' q = exists_path fs q"
proof -
  from assms(1) obtain fs1 where
    anc: "make_ancestors a [] (butlast ps) fs = Inr fs1" and mk: "mkdir (Path a ps) fs1 = Inr fs'"
    by (auto split: if_splits sum.splits)
  have ne: "ps \<noteq> []"
    using assms(1) by (auto simp add: exists_path_def is_dir_def split: if_splits)
  have "\<forall>k. 0 < k \<and> k \<le> length (butlast ps) \<longrightarrow> q \<noteq> Path a ([] @ take k (butlast ps))"
  proof (intro allI impI)
    fix k assume k: "0 < k \<and> k \<le> length (butlast ps)"
    then have "k \<le> length ps - 1"
      by simp
    moreover have "0 < length ps"
      using ne by simp
    ultimately have lt: "k < length ps"
      by arith
    then have "take k (butlast ps) = take k ps"
      by (rule take_butlast)
    moreover have "q \<noteq> Path a (take k ps)"
      using assms(2)[rule_format, of k] k lt by simp
    ultimately show "q \<noteq> Path a ([] @ take k (butlast ps))"
      by simp
  qed
  with anc have "exists_path fs1 q = exists_path fs q"
    by (rule make_ancestors_exists_other)
  moreover have "q \<noteq> Path a ps"
    using assms(2)[rule_format, of "length ps"] ne by simp
  ultimately show ?thesis
    using mkdir_exists_other[OF mk] by simp
qed

lemma waveforms_not_prefix:
  "Path a (ps @ [''waveforms'']) \<noteq> Path a (take k (ps @ ''datasets'' # rest))"
proof (cases "k \<le> length ps")
  case True
  then have "length (take k (ps @ ''datasets'' # rest)) \<le> length ps"
    by simp
  moreover have "length (ps @ [''waveforms'']) = Suc (length ps)"
    by simp
  ultimately have "ps @ [''waveforms''] \<noteq> take k (ps @ ''datasets'' # rest)"
    by (metis Suc_n_not_le_n)
  then show ?thesis by simp
next
  case False
  then obtain j where j: "k - length ps = Suc j"
    by (cases "k - length ps") simp_all
  from False have "take k ps = ps" by simp
  with j have "take k (ps @ ''datasets'' # rest) = ps @ ''datasets'' # take j rest"
    by simp
  then show ?thesis by simp
qed

lemma waveforms_not_above:
  "Path a (ps @ [''waveforms'']) \<noteq> Path a (take k ps)"
proof
  assume "Path a (ps @ [''waveforms'']) = Path a (take k ps)"
  then have "length (ps @ [''waveforms'']) = length (take k ps)" by simp
  then show False by simp
qed


lemma dataset_paths:
  "pjoin (Path a ps) (''datasets/recordings/'' @ y)
     = Path a (ps @ ''datasets'' # comps (''recordings/'' @ y))"
  "pjoin (Path a ps) (''datasets/gt_sortings/'' @ y)
     = Path a (ps @ ''datasets'' # comps (''gt_sortings/'' @ y))"
  using pjoin_datasets[of a ps "''recordings/'' @ y"] pjoin_datasets[of a ps "''gt_sortings/'' @ y"]
  by simp_all

lemma waveforms_not_in_datasets:
  "Path a (ps @ [''waveforms'']) \<noteq> Path a (ps @ ''datasets'' # rest)"
  by simp

lemma dump_to_pickle_exists_other:
  "dump_to_pickle x p fs = Inr fs' \<Longrightarrow> q \<noteq> p \<Longrightarrow> exists_path fs' q = exists_path fs q"
  by (cases x) (simp add: write_file_exists_other)

lemma save_numpy_folder_exists_other:
  assumes "save_numpy_folder (Path a ps) fs = Inr fs'"
    and "\<forall>k. 0 < k \<and> k \<le> length ps \<longrightarrow> q \<noteq> Path a (take k ps)"
  shows "exists_path fs' q = exists_path fs q"
proof -
  from assms(1) have "mkdir_parents (Path a ps) fs = Inr fs'"
    by (simp add: save_numpy_folder_def split: if_splits)
  then show ?thesis using assms(2) by (rule mkdir_parents_exists_other)
qed

lemma mkdirs_exists_other:
  "mkdirs ps fs = (None, fs') \<Longrightarrow> q \<notin> set ps \<Longrightarrow> exists_path fs' q = exists_path fs q"
proof (induction ps arbitrary: fs)
  case Nil
  then show ?case by simp
next
  case (Cons p ps)
  then obtain fs1 where mk: "mkdir p fs = Inr fs1" and rest: "mkdirs ps fs1 = (None, fs')"
    by (auto split: sum.splits)
  from Cons.prems(2) have "q \<noteq> p" "q \<notin> set ps" by auto
  with Cons.IH[OF rest] mkdir_exists_other[OF mk] show ?case by simp
qed

lemma dump_datasets_waveforms:
  "dump_datasets (Path a ps) ds fs = (None, fs') \<Longrightarrow>
     exists_path fs' (Path a (ps @ [''waveforms''])) = exists_path fs (Path a (ps @ [''waveforms'']))"
proof (induction "Path a ps" ds fs rule: dump_datasets.induct)
  case (1 fs)
  then show ?case by simp
next
  case (2 key rec gt_sorting rest fs)
  let ?q = "Path a (ps @ [''waveforms''])"
  from "2.prems" obtain fs1 fs2 fs3 where
    s1: "dump_to_pickle rec (pjoin (Path a ps) (''datasets/recordings/'' @ key @ ''.pickle'')) fs
           = Inr fs1" and
    s2: "dump_to_pickle gt_sorting
           (pjoin (Path a ps) (''datasets/gt_sortings/'' @ key @ ''.pickle'')) fs1 = Inr fs2" and
    s3: "save_numpy_folder (pjoin (Path a ps) (''datasets/gt_sortings/'' @ key)) fs2 = Inr fs3" and
    s4: "dump_datasets (Path a ps) rest fs3 = (None, fs')" and
    ok: "CHR ''/'' \<notin> set key" "CHR 0x5C \<notin> set key"
    by (auto split: if_splits sum.splits)
  have e1: "exists_path fs1 ?q = exists_path fs ?q"
    using s1 unfolding dataset_paths
    by (rule dump_to_pickle_exists_other) (rule waveforms_not_in_datasets)
  have e2: "exists_path fs2 ?q = exists_path fs1 ?q"
    using s2 unfolding dataset_paths
    by (rule dump_to_pickle_exists_other) (rule waveforms_not_in_datasets)
  have e3: "exists_path fs3 ?q = exists_path fs2 ?q"
    using s3 unfolding dataset_paths
    by (rule save_numpy_folder_exists_other) (intro allI impI waveforms_not_prefix)
  have e4: "exists_path fs' ?q = exists_path fs3 ?q"
    by (rule "2.hyps"[OF ok s1 s2 s3 s4])
  from e1 e2 e3 e4 show ?case by simp
qed

lemma create_leaves_waveforms:
  assumes "create E fs sf ds cs lv = (Inr st, fs')"
  shows "exists_path fs' (pjoin sf ''waveforms'') = exists_path fs (pjoin sf ''waveforms'')"
proof (cases sf)
  case (Path a ps)
  let ?q = "Path a (ps @ [''waveforms''])"
  from assms obtain lv' fs0 fs1 fs2 fs3 where
    top: "mkdir_parents sf fs = Inr fs0" and
    lay: "mkdirs (layout_folders sf) fs0 = (None, fs1)" and
    dmp: "dump_datasets sf ds fs1 = (None, fs2)" and
    w1: "write_file (pjoin sf ''info.json'') (ContentJson (Some lv')) fs2 = Inr fs3" and
    w2: "write_file (pjoin sf ''cases.pickle'') (ContentCases cs) fs3 = Inr fs'"
    by (rule create_steps)
  have e0: "exists_path fs0 ?q = exists_path fs ?q"
    using top unfolding Path
    by (rule mkdir_parents_exists_other) (intro allI impI waveforms_not_above)
  have "?q \<notin> set (layout_folders sf)"
    by (simp add: Path layout_folders_def comps_def)
  with lay have e1: "exists_path fs1 ?q = exists_path fs0 ?q"
    by (rule mkdirs_exists_other)
  have e2: "exists_path fs2 ?q = exists_path fs1 ?q"
    using dmp unfolding Path by (rule dump_datasets_waveforms)
  have e3: "exists_path fs3 ?q = exists_path fs2 ?q"
    using w1 by (rule write_file_exists_other) (simp add: Path comps_def)
  have e4: "exists_path fs' ?q = exists_path fs3 ?q"
    using w2 by (rule write_file_exists_other) (simp add: Path comps_def)
  from e0 e1 e2 e3 e4 show ?thesis
    unfolding Path pjoin_waveforms by simp
qed

lemma write_file_is_file_other:
  "write_file p c fs = Inr fs' \<Longrightarrow> q \<noteq> p \<Longrightarrow> is_file fs' q = is_file fs q"
  by (auto simp add: write_file_def is_file_def image_iff split: if_splits)

lemma dump_to_pickle_is_file_other:
  "dump_to_pickle x p fs = Inr fs' \<Longrightarrow> q \<noteq> p \<Longrightarrow> is_file fs' q = is_file fs q"
  by (cases x) (simp add: write_file_is_file_other)

lemma save_numpy_folder_files: "save_numpy_folder p fs = Inr fs' \<Longrightarrow> files fs' = files fs"
  by (auto simp add: save_numpy_folder_def dest: mkdir_parents_result split: if_splits)

lemma folder_not_in_datasets: "Path a ps \<noteq> Path a (ps @ ''datasets'' # rest)"
  by simp

lemma dump_datasets_folder_file:
  "dump_datasets (Path a ps) ds fs = (None, fs') \<Longrightarrow>
     is_file fs' (Path a ps) = is_file fs (Path a ps)"
proof (induction "Path a ps" ds fs rule: dump_datasets.induct)
  case (1 fs)
  then show ?case by simp
next
  case (2 key rec gt_sorting rest fs)
  from "2.prems" obtain fs1 fs2 fs3 where
    s1: "dump_to_pickle rec (pjoin (Path a ps) (''datasets/recordings/'' @ key @ ''.pickle'')) fs
           = Inr fs1" and
    s2: "dump_to_pickle gt_sorting
           (pjoin (Path a ps) (''datasets/gt_sortings/'' @ key @ ''.pickle'')) fs1 = Inr fs2" and
    s3: "save_numpy_folder (pjoin (Path a ps) (''datasets/gt_sortings/'' @ key)) fs2 = Inr fs3" and
    s4: "dump_datasets (Path a ps) rest fs3 = (None, fs')" and
    ok: "CHR ''/'' \<notin> set key" "CHR 0x5C \<notin> set key"
    by (auto split: if_splits sum.splits)
  have e1: "is_file fs1 (Path a ps) = is_file fs (Path a ps)"
    using s1 unfolding dataset_paths
    by (rule dump_to_pickle_is_file_other) (rule folder_not_in_datasets)
  have e2: "is_file fs2 (Path a ps) = is_file fs1 (Path a ps)"
    using s2 unfolding dataset_paths
    by (rule dump_to_pickle_is_file_other) (rule folder_not_in_datasets)
  have e3: "is_file fs3 (Path a ps) = is_file fs2 (Path a ps)"
    using save_numpy_folder_files[OF s3] by (simp add: is_file_def)
  have e4: "is_file fs' (Path a ps) = is_file fs3 (Path a ps)"
    by (rule "2.hyps"[OF ok s1 s2 s3 s4])
  from e1 e2 e3 e4 show ?case by simp
qed

lemma create_folder_not_file:
  assumes "create E fs sf ds cs lv = (Inr st, fs')"
  shows "\<not> is_file fs' sf"
proof (cases sf)
  case (Path a ps)
  from assms obtain lv' fs0 fs1 fs2 fs3 where
    top: "mkdir_parents sf fs = Inr fs0" and
    lay: "mkdirs (layout_folders sf) fs0 = (None, fs1)" and
    dmp: "dump_datasets sf ds fs1 = (None, fs2)" and
    w1: "write_file (pjoin sf ''info.json'') (ContentJson (Some lv')) fs2 = Inr fs3" and
    w2: "write_file (pjoin sf ''cases.pickle'') (ContentCases cs) fs3 = Inr fs'"
    by (rule create_steps)
  have "\<not> exists_path fs sf"
    using top unfolding Path by (auto split: if_splits)
  then have n: "\<not> is_file fs sf"
    by (simp add: exists_path_def)
  have f0: "files fs0 = files fs"
    using mkdir_parents_result[OF top] by simp
  have f1: "files fs1 = files fs0"
    using mkdirs_result[OF lay] by simp
  have e2: "is_file fs2 sf = is_file fs1 sf"
    using dmp unfolding Path by (rule dump_datasets_folder_file)
  have e3: "is_file fs3 sf = is_file fs2 sf"
    using w1 by (rule write_file_is_file_other) (simp add: Path comps_def)
  have e4: "is_file fs' sf = is_file fs3 sf"
    using w2 by (rule write_file_is_file_other) (simp add: Path comps_def)
  from n f0 f1 e2 e3 e4 show ?thesis
    by (simp add: is_file_def)
qed

lemma parent_waveforms: "parent (pjoin sf ''waveforms'') = sf"
  by (cases sf) (simp add: comps_def)

lemma waveforms_has_parts: "parts (pjoin sf ''waveforms'') \<noteq> []"
  by (cases sf) (simp add: comps_def)

lemma extract_waveforms_gt_first_step:
  assumes "is_dir fs (folder st)" and "\<not> is_file fs (folder st)"
  shows "extract_waveforms_gt E ks st fs =
     (if is_dir fs (pjoin (folder st) ''waveforms'')
      then extract_waveforms_loop E st (pjoin (folder st) ''waveforms'') (keys_or_all st ks) fs
      else if is_file fs (pjoin (folder st) ''waveforms'') then (Some FileExistsError, fs)
      else extract_waveforms_loop E st (pjoin (folder st) ''waveforms'') (keys_or_all st ks)
             (fs\<lparr>dirs := dirs fs @ [pjoin (folder st) ''waveforms'']\<rparr>))"
  using assms
  by (simp add: extract_waveforms_gt_def mkdir_exist_ok_def mkdir_def exists_path_def
      parent_waveforms)


text \<open>
  C5 (as amended). When \<^verbatim>\<open>GroundTruthStudy.create\<close> returns a study, the disk it leaves
  has the study folder with the sub-folders \<^verbatim>\<open>datasets\<close>, \<^verbatim>\<open>datasets/recordings\<close>,
  \<^verbatim>\<open>datasets/gt_sortings\<close>, \<^verbatim>\<open>sorters\<close>, \<^verbatim>\<open>sortings\<close>, \<^verbatim>\<open>sortings/run_logs\<close> and
  \<^verbatim>\<open>metrics\<close>, the file \<^verbatim>\<open>info.json\<close> holding the levels and the file \<^verbatim>\<open>cases.pickle\<close>
  holding the cases. The \<^verbatim>\<open>waveforms\<close> sub-folder is not among them: \<^verbatim>\<open>create\<close> leaves
  it as it was (absent, for a new study folder). It is made by \<^verbatim>\<open>extract_waveforms_gt\<close>:
  on the disk that \<^verbatim>\<open>create\<close> leaves, that method goes on with an existing
  \<^verbatim>\<open>waveforms\<close> folder, raises \<^verbatim>\<open>FileExistsError\<close> when a file has that name, and otherwise
  creates the folder, so that the folder is there before the first waveform is
  extracted.
\<close>

theorem create_establishes_layout:
  assumes "create E fs sf ds cs lv = (Inr st, fs')"
  shows "is_dir fs' sf
    \<and> is_dir fs' (pjoin sf ''datasets'')
    \<and> is_dir fs' (pjoin sf ''datasets/recordings'')
    \<and> is_dir fs' (pjoin sf ''datasets/gt_sortings'')
    \<and> is_dir fs' (pjoin sf ''sorters'')
    \<and> is_dir fs' (pjoin sf ''sortings'')
    \<and> is_dir fs' (pjoin (pjoin sf ''sortings'') ''run_logs'')
    \<and> is_dir fs' (pjoin sf ''metrics'')
    \<and> (\<exists>lv'. check_case_keys cs lv = Inr lv'
           \<and> read_file fs' (pjoin sf ''info.json'') = Inr (ContentJson (Some lv')))
    \<and> read_file fs' (pjoin sf ''cases.pickle'') = Inr (ContentCases cs)
    \<and> exists_path fs' (pjoin sf ''waveforms'') = exists_path fs (pjoin sf ''waveforms'')
    \<and> extract_waveforms_gt E ks st fs' =
        (if is_dir fs' (pjoin sf ''waveforms'')
         then extract_waveforms_loop E st (pjoin sf ''waveforms'') (keys_or_all st ks) fs'
         else if is_file fs' (pjoin sf ''waveforms'') then (Some FileExistsError, fs')
         else extract_waveforms_loop E st (pjoin sf ''waveforms'') (keys_or_all st ks)
                (fs'\<lparr>dirs := dirs fs' @ [pjoin sf ''waveforms'']\<rparr>))
    \<and> is_dir (fs'\<lparr>dirs := dirs fs' @ [pjoin sf ''waveforms'']\<rparr>) (pjoin sf ''waveforms'')"
proof -
  from assms obtain lv' fs0 fs1 fs2 fs3 where
    chk: "check_case_keys cs lv = Inr lv'" and
    top: "mkdir_parents sf fs = Inr fs0" and
    lay: "mkdirs (layout_folders sf) fs0 = (None, fs1)" and
    dmp: "dump_datasets sf ds fs1 = (None, fs2)" and
    w1: "write_file (pjoin sf ''info.json'') (ContentJson (Some lv')) fs2 = Inr fs3" and
    w2: "write_file (pjoin sf ''cases.pickle'') (ContentCases cs) fs3 = Inr fs'" and
    ini: "init E fs' sf = Inr st"
    by (rule create_steps)
  have d0: "sf \<in> set (dirs fs0)"
    using mkdir_parents_result[OF top] by simp
  have d1: "set (layout_folders sf) \<subseteq> set (dirs fs1)" "set (dirs fs0) \<subseteq> set (dirs fs1)"
    using mkdirs_result[OF lay] by simp_all
  have d2: "set (dirs fs1) \<subseteq> set (dirs fs2)"
    by (rule dump_datasets_grows[OF dmp])
  have d4: "dirs fs' = dirs fs2"
    using write_file_result[OF w1] write_file_result[OF w2] by simp
  have made: "sf \<in> set (dirs fs')" "set (layout_folders sf) \<subseteq> set (dirs fs')"
    using d0 d1 d2 d4 by auto
  have folders: "\<And>p. p \<in> set (layout_folders sf) \<Longrightarrow> is_dir fs' p"
    using made(2) by (auto simp add: is_dir_def)
  have info: "read_file fs' (pjoin sf ''info.json'') = Inr (ContentJson (Some lv'))"
    using write_file_read_other[OF w2 pjoin_info_cases] write_file_read_same[OF w1] by simp
  have cases: "read_file fs' (pjoin sf ''cases.pickle'') = Inr (ContentCases cs)"
    by (rule write_file_read_same[OF w2])
  have fo: "folder st = sf"
    by (rule init_folder[OF ini])
  have top_dir: "is_dir fs' (folder st)"
    using made(1) fo by (simp add: is_dir_def)
  have top_no_file: "\<not> is_file fs' (folder st)"
    using create_folder_not_file[OF assms] fo by simp
  have wf: "extract_waveforms_gt E ks st fs' =
        (if is_dir fs' (pjoin sf ''waveforms'')
         then extract_waveforms_loop E st (pjoin sf ''waveforms'') (keys_or_all st ks) fs'
         else if is_file fs' (pjoin sf ''waveforms'') then (Some FileExistsError, fs')
         else extract_waveforms_loop E st (pjoin sf ''waveforms'') (keys_or_all st ks)
                (fs'\<lparr>dirs := dirs fs' @ [pjoin sf ''waveforms'']\<rparr>))"
    using extract_waveforms_gt_first_step[OF top_dir top_no_file, of E ks] by (simp only: fo)
  have there: "is_dir (fs'\<lparr>dirs := dirs fs' @ [pjoin sf ''waveforms'']\<rparr>) (pjoin sf ''waveforms'')"
    by (simp add: is_dir_def)
  have untouched: "exists_path fs' (pjoin sf ''waveforms'') = exists_path fs (pjoin sf ''waveforms'')"
    by (rule create_leaves_waveforms[OF assms])
  have dirs: "is_dir fs' sf
    \<and> is_dir fs' (pjoin sf ''datasets'')
    \<and> is_dir fs' (pjoin sf ''datasets/recordings'')
    \<and> is_dir fs' (pjoin sf ''datasets/gt_sortings'')
    \<and> is_dir fs' (pjoin sf ''sorters'')
    \<and> is_dir fs' (pjoin sf ''sortings'')
    \<and> is_dir fs' (pjoin (pjoin sf ''sortings'') ''run_logs'')
    \<and> is_dir fs' (pjoin sf ''metrics'')"
    using made(1) folders by (simp add: is_dir_def layout_folders_def)
  from chk info have lvs: "\<exists>lv'. check_case_keys cs lv = Inr lv'
           \<and> read_file fs' (pjoin sf ''info.json'') = Inr (ContentJson (Some lv'))"
    by blast
  from dirs lvs cases untouched wf there show ?thesis
    by (intro conjI) (elim conjE, assumption)+
qed

lemma returned_pair: "\<not> isl (fst r) \<Longrightarrow> r = (Inr (projr (fst r)), snd r)"
  by (cases r, cases "fst r") auto

lemma ex_create_returns:
  "\<not> isl (fst (create ex_env ex_disk ex_folder [] [(KStr ''a'', ex_case)] None))"
  by code_simp

lemma ex_create_full_returns:
  "\<not> isl (fst (create ex_env ex_disk ex_folder ex_datasets [(KStr ''a'', ex_case)] None))"
  by code_simp

theorem create_establishes_layout_witness:
  "\<not> isl (fst (create ex_env ex_disk ex_folder ex_datasets [(KStr ''a'', ex_case)] None))
    \<and> is_dir (snd (create ex_env ex_disk ex_folder ex_datasets [(KStr ''a'', ex_case)] None))
         (pjoin ex_folder ''datasets/recordings'')
    \<and> is_dir (snd (create ex_env ex_disk ex_folder ex_datasets [(KStr ''a'', ex_case)] None))
         (pjoin (pjoin ex_folder ''sortings'') ''run_logs'')
    \<and> read_file (snd (create ex_env ex_disk ex_folder ex_datasets [(KStr ''a'', ex_case)] None))
         (pjoin ex_folder ''cases.pickle'') = Inr (ContentCases [(KStr ''a'', ex_case)])
    \<and> \<not> exists_path (snd (create ex_env ex_disk ex_folder ex_datasets [(KStr ''a'', ex_case)] None))
           (pjoin ex_folder ''waveforms'')
    \<and> extract_waveforms_gt ex_env None
         (projr (fst (create ex_env ex_disk ex_folder ex_datasets [(KStr ''a'', ex_case)] None)))
         (snd (create ex_env ex_disk ex_folder ex_datasets [(KStr ''a'', ex_case)] None))
       = (None,
          (snd (create ex_env ex_disk ex_folder ex_datasets [(KStr ''a'', ex_case)] None))
            \<lparr>dirs :=
               dirs (snd (create ex_env ex_disk ex_folder ex_datasets [(KStr ''a'', ex_case)] None))
               @ [pjoin ex_folder ''waveforms'']\<rparr>)
    \<and> is_dir (snd (extract_waveforms_gt ex_env None
         (projr (fst (create ex_env ex_disk ex_folder ex_datasets [(KStr ''a'', ex_case)] None)))
         (snd (create ex_env ex_disk ex_folder ex_datasets [(KStr ''a'', ex_case)] None))))
       (pjoin ex_folder ''waveforms'')"
proof -
  let ?made = "projr (fst (create ex_env ex_disk ex_folder ex_datasets [(KStr ''a'', ex_case)] None))"
  let ?disk = "snd (create ex_env ex_disk ex_folder ex_datasets [(KStr ''a'', ex_case)] None)"
  let ?wf = "pjoin ex_folder ''waveforms''"
  note t = create_establishes_layout [OF returned_pair [OF ex_create_full_returns], of None]
  have before: "\<not> exists_path ex_disk ?wf"
    by code_simp
  have absent: "\<not> exists_path ?disk ?wf"
    using t before by simp
  then have no_dir: "\<not> is_dir ?disk ?wf" and no_file: "\<not> is_file ?disk ?wf"
    by (simp_all add: exists_path_def)
  have step: "extract_waveforms_gt ex_env None ?made ?disk
      = extract_waveforms_loop ex_env ?made ?wf (keys_or_all ?made None)
          (?disk\<lparr>dirs := dirs ?disk @ [?wf]\<rparr>)"
    using t no_dir no_file by simp
  have keys: "keys_or_all ?made None = [KStr ''a'']"
    unfolding keys_or_all_def by code_simp
  have "map_option dataset (map_of (cases ?made) (KStr ''a'')) = Some (Some ''rec0'')"
    by code_simp
  then obtain c where c: "map_of (cases ?made) (KStr ''a'') = Some c" "dataset c = Some ''rec0''"
    by auto
  have d: "datasets ?made ''rec0'' = Some (Extractor ''loaded'', Extractor ''loaded'')"
    by code_simp
  have ext: "extract_waveforms ex_env r g p x = (None, x)" for r g p x
    by (simp add: ex_env_def)
  have loop: "extract_waveforms_loop ex_env ?made ?wf [KStr ''a''] x = (None, x)" for x
    using c d by (simp add: ext)
  have run: "extract_waveforms_gt ex_env None ?made ?disk
      = (None, ?disk\<lparr>dirs := dirs ?disk @ [?wf]\<rparr>)"
    by (simp only: step keys loop)
  have there: "is_dir (snd (extract_waveforms_gt ex_env None ?made ?disk)) ?wf"
    unfolding run snd_conv using t by (elim conjE) assumption
  have rest: "is_dir ?disk (pjoin ex_folder ''datasets/recordings'')
    \<and> is_dir ?disk (pjoin (pjoin ex_folder ''sortings'') ''run_logs'')
    \<and> read_file ?disk (pjoin ex_folder ''cases.pickle'') = Inr (ContentCases [(KStr ''a'', ex_case)])"
    using t by simp
  from ex_create_full_returns rest absent run there show ?thesis
    by (intro conjI) (elim conjE, assumption)+
qed

text \<open>
  C5 as stated fails: after \<^verbatim>\<open>create\<close> on an empty disk, with one case and no dataset,
  the study is returned and its \<^verbatim>\<open>waveforms\<close> sub-folder does not exist.
\<close>

theorem create_makes_no_waveforms_folder:
  "\<not> isl (fst (create ex_env ex_disk ex_folder [] [(KStr ''a'', ex_case)] None))
    \<and> \<not> exists_path (snd (create ex_env ex_disk ex_folder [] [(KStr ''a'', ex_case)] None))
           (pjoin ex_folder ''waveforms'')"
  by code_simp

section \<open>Case keys\<close>

lemma str_join_strs: "str_join sep (map KStr ss) = Inr (join_strs sep ss)"
  by (induction sep ss rule: join_strs.induct) simp_all

lemma check_other: "check_case_keys ((KOther n, c) # rest) lv = Inl ValueError"
  by (simp add: check_case_keys_def)

lemma check_str_mixed:
  "\<not> list_all is_str (map fst rest) \<Longrightarrow> check_case_keys ((KStr s, c) # rest) lv = Inl AssertionError"
  by (simp add: check_case_keys_def)

lemma check_tuple_mixed:
  "\<not> list_all (\<lambda>k. is_tuple k \<and> tuple_len k = length ks) (map fst rest)
   \<Longrightarrow> check_case_keys ((KTuple ks, c) # rest) lv = Inl AssertionError"
  by (auto simp add: check_case_keys_def list_all_iff)

lemma create_check_fails:
  "check_case_keys cs lv = Inl e \<Longrightarrow> create E fs sf ds cs lv = (Inl e, fs)"
  by (simp add: create_def)

lemma check_homogeneous:
  assumes "check_case_keys cs lv = Inr lv'"
  shows "list_all is_str (map fst cs)
         \<or> (\<exists>n. list_all (\<lambda>k. is_tuple k \<and> tuple_len k = n) (map fst cs))"
proof (cases cs)
  case Nil
  with assms show ?thesis by (simp add: check_case_keys_def)
next
  case (Cons kc rest)
  obtain key0 c0 where kc: "kc = (key0, c0)" by (cases kc)
  show ?thesis
  proof (cases key0)
    case (KStr s0)
    with assms Cons kc show ?thesis
      by (auto simp add: check_case_keys_def split: if_splits)
  next
    case (KTuple ks0)
    with assms Cons kc have "list_all (\<lambda>k. is_tuple k \<and> tuple_len k = length ks0) (map fst cs)"
      by (auto simp add: check_case_keys_def list_all_iff split: if_splits)
    then show ?thesis by blast
  next
    case (KOther n)
    with assms Cons kc show ?thesis by (simp add: check_case_keys_def)
  qed
qed

text \<open>
  C4. \<^verbatim>\<open>key_to_str\<close> returns a string key unchanged, joins the components of a tuple
  of strings with \<^verbatim>\<open>" ## "\<close> (for any tuple it is Python's \<^verbatim>\<open>" ## ".join\<close>, which
  rejects a component that is not a string), and raises \<^verbatim>\<open>ValueError\<close> for a key that
  is neither a string nor a tuple. \<^verbatim>\<open>create\<close> raises \<^verbatim>\<open>ValueError\<close> when the first case key is neither, fails
  an assertion when the first key is a string and a later key is not, or when the first
  key is a tuple and a later key is not a tuple of the same length; so when it returns
  a study the keys are all strings or all tuples of one length. In each failure the
  disk is left as it was.
\<close>

theorem case_keys_str_or_tuple:
  "key_to_str (KStr s) = Inr s
   \<and> key_to_str (KTuple (map KStr ss)) = Inr (join_strs '' ## '' ss)
   \<and> key_to_str (KTuple ks') = str_join '' ## '' ks'
   \<and> key_to_str (KOther n) = Inl ValueError
   \<and> create E fs sf ds ((KOther n, c) # rest) lv = (Inl ValueError, fs)
   \<and> (\<not> list_all is_str (map fst rest)
        \<longrightarrow> create E fs sf ds ((KStr s, c) # rest) lv = (Inl AssertionError, fs))
   \<and> (\<not> list_all (\<lambda>k. is_tuple k \<and> tuple_len k = length ks) (map fst rest)
        \<longrightarrow> create E fs sf ds ((KTuple ks, c) # rest) lv = (Inl AssertionError, fs))
   \<and> (create E fs sf ds cs lv = (Inr st, fs')
        \<longrightarrow> list_all is_str (map fst cs)
            \<or> (\<exists>n. list_all (\<lambda>k. is_tuple k \<and> tuple_len k = n) (map fst cs)))"
proof (intro conjI impI)
  show "key_to_str (KStr s) = Inr s" by simp
  show "key_to_str (KTuple (map KStr ss)) = Inr (join_strs '' ## '' ss)"
    by (simp add: key_separator_def str_join_strs)
  show "key_to_str (KTuple ks') = str_join '' ## '' ks'"
    by (simp add: key_separator_def)
  show "key_to_str (KOther n) = Inl ValueError" by simp
  show "create E fs sf ds ((KOther n, c) # rest) lv = (Inl ValueError, fs)"
    by (rule create_check_fails) (rule check_other)
next
  assume "\<not> list_all is_str (map fst rest)"
  then show "create E fs sf ds ((KStr s, c) # rest) lv = (Inl AssertionError, fs)"
    by (intro create_check_fails check_str_mixed)
next
  assume "\<not> list_all (\<lambda>k. is_tuple k \<and> tuple_len k = length ks) (map fst rest)"
  then show "create E fs sf ds ((KTuple ks, c) # rest) lv = (Inl AssertionError, fs)"
    by (intro create_check_fails check_tuple_mixed)
next
  assume "create E fs sf ds cs lv = (Inr st, fs')"
  then obtain lv' where "check_case_keys cs lv = Inr lv'"
    by (rule create_steps)
  then show "list_all is_str (map fst cs)
            \<or> (\<exists>n. list_all (\<lambda>k. is_tuple k \<and> tuple_len k = n) (map fst cs))"
    by (rule check_homogeneous)
qed

theorem case_keys_str_or_tuple_witness:
  "key_to_str (KStr ''a'') = Inr ''a''
   \<and> key_to_str (KTuple [KStr ''a'', KStr ''b'']) = Inr ''a ## b''
   \<and> key_to_str (KOther 3) = Inl ValueError
   \<and> create ex_env ex_disk ex_folder [] [(KOther 3, ex_case)] None = (Inl ValueError, ex_disk)
   \<and> create ex_env ex_disk ex_folder [] [(KStr ''a'', ex_case), (KOther 3, ex_case)] None
       = (Inl AssertionError, ex_disk)
   \<and> create ex_env ex_disk ex_folder []
         [(KTuple [KStr ''a'', KStr ''b''], ex_case), (KTuple [KStr ''a''], ex_case)] None
       = (Inl AssertionError, ex_disk)
   \<and> \<not> isl (fst (create ex_env ex_disk ex_folder [] [(KStr ''a'', ex_case)] None))
   \<and> list_all is_str (map fst [(KStr ''a'', ex_case)])"
  using case_keys_str_or_tuple [where s = "''a''" and ss = "[''a'', ''b'']" and n = 3
      and c = ex_case and rest = "[(KOther 3, ex_case)]" and E = ex_env and fs = ex_disk
      and sf = ex_folder and ds = "[]" and lv = None and ks = "[KStr ''a'', KStr ''b'']"
      and cs = "[(KStr ''a'', ex_case)]" and ks' = "[]"]
    case_keys_str_or_tuple [where rest = "[]" and n = 3 and c = ex_case and E = ex_env
      and fs = ex_disk and sf = ex_folder and ds = "[]" and lv = None and ks' = "[]"]
    case_keys_str_or_tuple [where rest = "[(KTuple [KStr ''a''], ex_case)]" and c = ex_case
      and E = ex_env and fs = ex_disk and sf = ex_folder and ds = "[]" and lv = None
      and ks = "[KStr ''a'', KStr ''b'']" and ks' = "[]"]
    ex_create_returns
  by simp

section \<open>Failing early\<close>

text \<open>
  C10. \<^verbatim>\<open>create\<close> with an empty \<^verbatim>\<open>cases\<close> dict raises \<^verbatim>\<open>IndexError\<close> (from
  \<^verbatim>\<open>list(cases.keys())[0]\<close>) and leaves the disk as it was: nothing has been created.
\<close>

theorem create_empty_cases: "create E fs sf ds [] lv = (Inl IndexError, fs)"
  by (simp add: create_def check_case_keys_def)

text \<open>
  C2. Constructing a study on a folder without a \<^verbatim>\<open>datasets\<close> sub-folder raises
  \<^verbatim>\<open>ValueError\<close>, whatever else the disk holds and whatever the external loaders would
  do: \<^verbatim>\<open>scan_folder\<close> stops at its first test, on any study object with that folder.
\<close>

theorem missing_datasets_folder:
  assumes "\<not> exists_path fs (pjoin study_folder ''datasets'')"
  shows "init E fs study_folder = Inl ValueError
       \<and> scan_folder E fs (st\<lparr>folder := study_folder\<rparr>) = Inl ValueError"
  using assms by (simp add: init_def scan_folder_def fresh_study_def)

theorem missing_datasets_folder_witness:
  "\<not> exists_path ex_disk (pjoin ex_folder ''datasets'')
   \<and> init ex_env ex_disk ex_folder = Inl ValueError"
proof -
  have h: "\<not> exists_path ex_disk (pjoin ex_folder ''datasets'')"
    by code_simp
  from missing_datasets_folder [OF h] h show ?thesis by simp
qed


section \<open>Scanning a study folder\<close>

lemma scan_sortings_result:
  assumes "scan_sortings E fs fo ks so = Inr so'"
  shows "dom so' = dom so \<union> set ks
    \<and> (\<forall>k. k \<notin> set ks \<longrightarrow> so' k = so k)
    \<and> (\<forall>k\<in>set ks. \<exists>s. key_to_str k = Inr s
          \<and> (if exists_path fs (sorting_folder_of fo s)
              then \<exists>x. load_extractor E fs (sorting_folder_of fo s) = Inr x \<and> so' k = Some (Some x)
              else so' k = Some None))"
  using assms
proof (induction ks arbitrary: so)
  case Nil
  then show ?case by simp
next
  case (Cons key rest)
  from Cons.prems obtain s where s: "key_to_str key = Inr s"
    by (auto split: sum.splits)
  define v where "v = (if exists_path fs (sorting_folder_of fo s)
                        then Some (projr (load_extractor E fs (sorting_folder_of fo s))) else None)"
  have loaded: "load_extractor E fs (sorting_folder_of fo s) = Inr (the v)"
    if "exists_path fs (sorting_folder_of fo s)"
    using Cons.prems s that by (auto simp add: v_def split: sum.splits)
  have rec: "scan_sortings E fs fo rest (so(key \<mapsto> v)) = Inr so'"
    using Cons.prems s by (auto simp add: v_def split: sum.splits if_splits)
  note ih = Cons.IH[OF rec]
  have head: "\<exists>s. key_to_str key = Inr s
          \<and> (if exists_path fs (sorting_folder_of fo s)
              then \<exists>x. load_extractor E fs (sorting_folder_of fo s) = Inr x \<and> so' key = Some (Some x)
              else so' key = Some None)"
  proof (cases "key \<in> set rest")
    case True
    with ih show ?thesis by blast
  next
    case False
    with ih have "so' key = Some v" by simp
    with s loaded show ?thesis by (auto simp add: v_def)
  qed
  from ih head show ?case by auto
qed

lemma none_for_each_lookup: "none_for_each cs k = map_option (\<lambda>c. None) (map_of cs k)"
  by (induction cs) (auto simp add: none_for_each_def)

lemma dom_none_for_each: "dom (none_for_each cs) = fst ` set cs"
  by (auto simp add: dom_def none_for_each_lookup map_of_eq_None_iff)

lemma none_for_each_value: "k \<in> fst ` set cs \<Longrightarrow> none_for_each cs k = Some None"
  by (cases "map_of cs k") (auto simp add: none_for_each_lookup map_of_eq_None_iff)

lemma scan_folder_steps:
  assumes "scan_folder E fs st = Inr st'"
  obtains cs so where
    "scan_sortings E fs (folder st) (map fst cs) Map.empty = Inr so"
    "cases st' = cs" "sortings st' = so" "comparisons st' = none_for_each cs"
    "folder st' = folder st"
  using assms
  by (auto simp add: scan_folder_def split: if_splits sum.splits)

lemma create_returns_init:
  "create E fs0 sf ds cs lv = (Inr st', fs) \<Longrightarrow> init E fs sf = Inr st'"
  by (auto simp add: create_def split: sum.splits prod.splits option.splits)

text \<open>
  C9. When \<^verbatim>\<open>scan_folder\<close> returns (called directly, from \<^verbatim>\<open>__init__\<close>, or from the
  \<^verbatim>\<open>__init__\<close> at the end of \<^verbatim>\<open>create\<close>, on the disk \<open>fs\<close> it scans), \<^verbatim>\<open>self.sortings\<close> and
  \<^verbatim>\<open>self.comparisons\<close> have the keys of \<^verbatim>\<open>self.cases\<close>, every comparison is \<^verbatim>\<open>None\<close>, and
  the sorting of a key is not \<^verbatim>\<open>None\<close> exactly when its folder under \<^verbatim>\<open>sortings\<close>
  exists.
\<close>

theorem scan_folder_key_sets:
  assumes "scan_folder E fs st = Inr st' \<or> init E fs sf = Inr st'
           \<or> create E fs0 sf ds cs lv = (Inr st', fs)"
  shows "dom (sortings st') = fst ` set (cases st')
    \<and> dom (comparisons st') = fst ` set (cases st')
    \<and> (\<forall>k\<in>fst ` set (cases st').
          comparisons st' k = Some None
          \<and> (\<exists>s. key_to_str k = Inr s
                \<and> (sortings st' k \<noteq> Some None
                     \<longleftrightarrow> exists_path fs (sorting_folder_of (folder st') s))))"
proof -
  from assms obtain st0 where "scan_folder E fs st0 = Inr st'"
    by (auto simp add: init_def dest: create_returns_init)
  then obtain cs' so where
    so: "scan_sortings E fs (folder st0) (map fst cs') Map.empty = Inr so" and
    eqs: "cases st' = cs'" "sortings st' = so" "comparisons st' = none_for_each cs'"
      "folder st' = folder st0"
    by (rule scan_folder_steps)
  note r = scan_sortings_result[OF so]
  have "dom so = fst ` set cs'"
    using r by simp
  moreover have "\<exists>s. key_to_str k = Inr s
                \<and> (so k \<noteq> Some None \<longleftrightarrow> exists_path fs (sorting_folder_of (folder st0) s))"
    if "k \<in> fst ` set cs'" for k
  proof -
    from that r obtain s where
      s: "key_to_str k = Inr s" and
      v: "if exists_path fs (sorting_folder_of (folder st0) s)
          then \<exists>x. load_extractor E fs (sorting_folder_of (folder st0) s) = Inr x \<and> so k = Some (Some x)
          else so k = Some None"
      by auto
    from v have "so k \<noteq> Some None \<longleftrightarrow> exists_path fs (sorting_folder_of (folder st0) s)"
      by (auto split: if_splits)
    with s show ?thesis by blast
  qed
  ultimately show ?thesis
    using eqs by (simp add: dom_none_for_each none_for_each_value)
qed



lemma ex_init_returns: "\<not> isl (init ex_env ex_study_disk ex_folder)"
  by code_simp

lemma ex_init_keys:
  "map fst (cases (projr (init ex_env ex_study_disk ex_folder))) = [KStr ''a'', KStr ''b'']"
  by code_simp

lemma returned_value: "\<not> isl r \<Longrightarrow> r = Inr (projr r)"
  by (cases r) auto

theorem scan_folder_key_sets_witness:
  "\<not> isl (init ex_env ex_study_disk ex_folder)
   \<and> dom (sortings (projr (init ex_env ex_study_disk ex_folder))) = {KStr ''a'', KStr ''b''}
   \<and> dom (comparisons (projr (init ex_env ex_study_disk ex_folder))) = {KStr ''a'', KStr ''b''}
   \<and> comparisons (projr (init ex_env ex_study_disk ex_folder)) (KStr ''a'') = Some None
   \<and> comparisons (projr (init ex_env ex_study_disk ex_folder)) (KStr ''b'') = Some None
   \<and> sortings (projr (init ex_env ex_study_disk ex_folder)) (KStr ''a'') \<noteq> Some None
   \<and> exists_path ex_study_disk (sorting_folder_of ex_folder ''a'')
   \<and> sortings (projr (init ex_env ex_study_disk ex_folder)) (KStr ''b'') = Some None
   \<and> \<not> exists_path ex_study_disk (sorting_folder_of ex_folder ''b'')
   \<and> \<not> isl (fst (create ex_env ex_disk ex_folder [] [(KStr ''a'', ex_case)] None))
   \<and> dom (sortings (projr (fst (create ex_env ex_disk ex_folder [] [(KStr ''a'', ex_case)] None))))
       = fst ` set (cases (projr (fst (create ex_env ex_disk ex_folder [] [(KStr ''a'', ex_case)]
                                          None))))"
proof -
  let ?st = "projr (init ex_env ex_study_disk ex_folder)"
  have created: "dom (sortings (projr (fst (create ex_env ex_disk ex_folder [] [(KStr ''a'', ex_case)]
                                             None))))
       = fst ` set (cases (projr (fst (create ex_env ex_disk ex_folder [] [(KStr ''a'', ex_case)]
                                          None))))"
    using scan_folder_key_sets [OF disjI2 [OF disjI2 [OF returned_pair [OF ex_create_returns]]]]
    by (rule conjunct1)
  have r: "init ex_env ex_study_disk ex_folder = Inr ?st"
    by (rule returned_value[OF ex_init_returns])
  have ks: "fst ` set (cases ?st) = {KStr ''a'', KStr ''b''}"
    using ex_init_keys by (simp flip: set_map)
  have fo: "folder ?st = ex_folder"
    by (rule init_folder[OF r])
  have a: "exists_path ex_study_disk (sorting_folder_of ex_folder ''a'')"
    and b: "\<not> exists_path ex_study_disk (sorting_folder_of ex_folder ''b'')"
    by code_simp+
  from scan_folder_key_sets [OF disjI2 [OF disjI1 [OF r]]]
  have "dom (sortings ?st) = {KStr ''a'', KStr ''b''}
   \<and> dom (comparisons ?st) = {KStr ''a'', KStr ''b''}
   \<and> comparisons ?st (KStr ''a'') = Some None
   \<and> comparisons ?st (KStr ''b'') = Some None
   \<and> sortings ?st (KStr ''a'') \<noteq> Some None
   \<and> sortings ?st (KStr ''b'') = Some None"
    using a b by (simp add: ks fo)
  with ex_init_returns ex_create_returns created a b show ?thesis
    by (intro conjI) (elim conjE, assumption)+
qed

section \<open>Missing sorter outputs\<close>


lemma run_comparisons_step_result:
  assumes "run_comparisons_step cmp k st = (None, st1)"
  shows "sortings st1 = sortings st \<and> cases st1 = cases st \<and> datasets st1 = datasets st
    \<and> (\<exists>v. comparisons st1 = (comparisons st)(k \<mapsto> v) \<and> (sortings st k = Some None \<longrightarrow> v = None))"
  using assms
  by (auto simp add: run_comparisons_step_def split: option.splits sum.splits prod.splits)

lemma run_comparisons_loop_none:
  assumes "run_comparisons_loop cmp ks st = (None, st')"
    and "sortings st key = Some None"
    and "key \<in> set ks \<or> comparisons st key = Some None"
  shows "comparisons st' key = Some None"
  using assms
proof (induction ks arbitrary: st)
  case Nil
  then show ?case by simp
next
  case (Cons k rest)
  from Cons.prems(1) obtain st1 where
    step: "run_comparisons_step cmp k st = (None, st1)" and
    loop: "run_comparisons_loop cmp rest st1 = (None, st')"
    by (auto split: prod.splits option.splits)
  from run_comparisons_step_result[OF step] obtain v where
    so: "sortings st1 = sortings st" and
    cm: "comparisons st1 = (comparisons st)(k \<mapsto> v)" and
    v: "sortings st k = Some None \<longrightarrow> v = None"
    by blast
  have "key \<in> set rest \<or> comparisons st1 key = Some None"
    using Cons.prems(2,3) cm v by auto
  with Cons.IH[OF loop] so Cons.prems(2) show ?case by simp
qed

lemma run_comparisons_step_ready:
  assumes "map_of (cases st) k = Some c" and "dataset c = Some d"
    and "datasets st d = Some (rec, gt)"
    and "sortings st k = Some None \<or> (\<exists>so. sortings st k = Some (Some so) \<and> \<not> isl (cmp gt so))"
  shows "\<exists>v. run_comparisons_step cmp k st = (None, st\<lparr>comparisons := (comparisons st)(k \<mapsto> v)\<rparr>)"
proof (cases "sortings st k = Some None")
  case True
  with assms(1-3) have "run_comparisons_step cmp k st
      = (None, st\<lparr>comparisons := (comparisons st)(k \<mapsto> None)\<rparr>)"
    by (simp add: run_comparisons_step_def)
  then show ?thesis by (rule exI)
next
  case False
  with assms(4) obtain so where so: "sortings st k = Some (Some so)" and ok: "\<not> isl (cmp gt so)"
    by auto
  from ok obtain cp where "cmp gt so = Inr cp"
    by (cases "cmp gt so") auto
  with assms(1-3) so have "run_comparisons_step cmp k st
      = (None, st\<lparr>comparisons := (comparisons st)(k \<mapsto> Some cp)\<rparr>)"
    by (simp add: run_comparisons_step_def)
  then show ?thesis by (rule exI)
qed

lemma run_comparisons_loop_returns:
  assumes "\<forall>k\<in>set ks. \<exists>c d rec gt. map_of (cases st) k = Some c \<and> dataset c = Some d
             \<and> datasets st d = Some (rec, gt)
             \<and> (sortings st k = Some None
                  \<or> (\<exists>so. sortings st k = Some (Some so) \<and> \<not> isl (cmp gt so)))"
  shows "fst (run_comparisons_loop cmp ks st) = None"
  using assms
proof (induction ks arbitrary: st)
  case Nil
  then show ?case by simp
next
  case (Cons k rest)
  from Cons.prems obtain c d rec gt where
    "map_of (cases st) k = Some c" "dataset c = Some d" "datasets st d = Some (rec, gt)"
    "sortings st k = Some None \<or> (\<exists>so. sortings st k = Some (Some so) \<and> \<not> isl (cmp gt so))"
    by auto
  then obtain v where
    step: "run_comparisons_step cmp k st = (None, st\<lparr>comparisons := (comparisons st)(k \<mapsto> v)\<rparr>)"
    using run_comparisons_step_ready by blast
  have "fst (run_comparisons_loop cmp rest (st\<lparr>comparisons := (comparisons st)(k \<mapsto> v)\<rparr>)) = None"
    using Cons.prems by (intro Cons.IH) simp
  with step show ?case by simp
qed

text \<open>
  C3 (as amended). A case without a sortings folder is "not yet computed":
  \<^item> the pass of \<^verbatim>\<open>scan_folder\<close> over a key whose sortings folder does not exist stores
    \<^verbatim>\<open>None\<close> and goes on with the other keys without raising, and when \<^verbatim>\<open>scan_folder\<close>
    returns, \<^verbatim>\<open>self.sortings\<close> holds \<^verbatim>\<open>None\<close> for it;
  \<^item> \<^verbatim>\<open>run_comparisons\<close> looks up the dataset of the case before it tests the sorting.
    For a key whose sorting is \<^verbatim>\<open>None\<close> and whose case names a dataset of the study, the
    pass stores \<^verbatim>\<open>None\<close> in \<^verbatim>\<open>self.comparisons\<close> and goes on without raising; when the
    case names a dataset that the study does not have, the pass raises \<^verbatim>\<open>KeyError\<close>
    and nothing is stored. When every listed key names a dataset of the study and
    has its sorting entry (with the comparison class returning for the sortings that
    are there), \<^verbatim>\<open>run_comparisons\<close> returns without raising, and whenever it returns,
    \<^verbatim>\<open>self.comparisons\<close> holds \<^verbatim>\<open>None\<close> for every listed key whose sorting is \<^verbatim>\<open>None\<close>;
  \<^item> the pass of \<^verbatim>\<open>copy_sortings\<close> over a key for which \<^verbatim>\<open>read_sorter_folder\<close> returns
    \<^verbatim>\<open>None\<close> changes neither the object nor the disk and goes on.
\<close>

theorem missing_sorter_output_skipped:
  "(key_to_str key = Inr s \<and> \<not> exists_path fs (sorting_folder_of fo s)
      \<longrightarrow> scan_sortings E fs fo (key # rest) so = scan_sortings E fs fo rest (so(key \<mapsto> None)))
   \<and> (scan_folder E fs st = Inr st' \<and> key \<in> fst ` set (cases st') \<and> key_to_str key = Inr s
        \<and> \<not> exists_path fs (sorting_folder_of (folder st) s)
      \<longrightarrow> sortings st' key = Some None)
   \<and> (map_of (cases st) key = Some c \<and> dataset c = Some d \<and> datasets st d = Some (rec, gt)
        \<and> sortings st key = Some None
      \<longrightarrow> run_comparisons_loop cmp (key # rest) st
          = run_comparisons_loop cmp rest (st\<lparr>comparisons := (comparisons st)(key \<mapsto> None)\<rparr>))
   \<and> (map_of (cases st) key = Some c \<and> dataset c = Some d \<and> datasets st d = None
      \<longrightarrow> run_comparisons_loop cmp (key # rest) st = (Some KeyError, st))
   \<and> ((\<forall>k\<in>set (keys_or_all st case_keys).
          \<exists>c d rec gt. map_of (cases st) k = Some c \<and> dataset c = Some d
            \<and> datasets st d = Some (rec, gt)
            \<and> (sortings st k = Some None
                 \<or> (\<exists>so. sortings st k = Some (Some so) \<and> \<not> isl (cmp gt so))))
      \<longrightarrow> fst (run_comparisons cmp case_keys st) = None)
   \<and> (run_comparisons cmp case_keys st = (None, st'') \<and> key \<in> set (keys_or_all st case_keys)
        \<and> sortings st key = Some None
      \<longrightarrow> comparisons st'' key = Some None)
   \<and> (key_to_str key = Inr s \<and> read_sorter_folder E fs (sorter_folder_of (folder st) s) = Inr None
      \<longrightarrow> copy_sortings_loop E force (key # rest) (st, fs)
          = copy_sortings_loop E force rest (st, fs))"
proof (intro conjI impI; (elim conjE)?)
  assume "key_to_str key = Inr s" "\<not> exists_path fs (sorting_folder_of fo s)"
  then show "scan_sortings E fs fo (key # rest) so = scan_sortings E fs fo rest (so(key \<mapsto> None))"
    by simp
next
  assume scan: "scan_folder E fs st = Inr st'" and mem: "key \<in> fst ` set (cases st')"
    and s: "key_to_str key = Inr s" and no: "\<not> exists_path fs (sorting_folder_of (folder st) s)"
  from scan obtain cs so' where
    so': "scan_sortings E fs (folder st) (map fst cs) Map.empty = Inr so'" and
    eqs: "cases st' = cs" "sortings st' = so'"
    by (rule scan_folder_steps)
  from scan_sortings_result[OF so'] mem eqs s no show "sortings st' key = Some None"
    by fastforce
next
  assume "map_of (cases st) key = Some c" "dataset c = Some d" "datasets st d = Some (rec, gt)"
    "sortings st key = Some None"
  then show "run_comparisons_loop cmp (key # rest) st
          = run_comparisons_loop cmp rest (st\<lparr>comparisons := (comparisons st)(key \<mapsto> None)\<rparr>)"
    by (simp add: run_comparisons_step_def)
next
  assume "map_of (cases st) key = Some c" "dataset c = Some d" "datasets st d = None"
  then show "run_comparisons_loop cmp (key # rest) st = (Some KeyError, st)"
    by (simp add: run_comparisons_step_def)
next
  assume "\<forall>k\<in>set (keys_or_all st case_keys).
          \<exists>c d rec gt. map_of (cases st) k = Some c \<and> dataset c = Some d
            \<and> datasets st d = Some (rec, gt)
            \<and> (sortings st k = Some None
                 \<or> (\<exists>so. sortings st k = Some (Some so) \<and> \<not> isl (cmp gt so)))"
  then show "fst (run_comparisons cmp case_keys st) = None"
    unfolding run_comparisons_def by (rule run_comparisons_loop_returns)
next
  assume "run_comparisons cmp case_keys st = (None, st'')" "key \<in> set (keys_or_all st case_keys)"
    "sortings st key = Some None"
  then show "comparisons st'' key = Some None"
    by (auto simp add: run_comparisons_def intro: run_comparisons_loop_none)
next
  assume "key_to_str key = Inr s" "read_sorter_folder E fs (sorter_folder_of (folder st) s) = Inr None"
  then show "copy_sortings_loop E force (key # rest) (st, fs)
          = copy_sortings_loop E force rest (st, fs)"
    by (simp add: copy_sortings_step_def)
qed

theorem missing_sorter_output_skipped_witness:
  "\<not> isl (init ex_env ex_study_disk ex_folder)
   \<and> \<not> exists_path ex_study_disk (sorting_folder_of ex_folder ''b'')
   \<and> sortings (projr (init ex_env ex_study_disk ex_folder)) (KStr ''b'') = Some None
   \<and> fst (run_comparisons ex_compare None (projr (init ex_env ex_study_disk ex_folder))) = None
   \<and> comparisons
        (snd (run_comparisons ex_compare None (projr (init ex_env ex_study_disk ex_folder))))
        (KStr ''b'') = Some None
   \<and> copy_sortings_loop ex_env True [KStr ''b'']
        (projr (init ex_env ex_study_disk ex_folder), ex_study_disk)
       = (None, projr (init ex_env ex_study_disk ex_folder), ex_study_disk)
   \<and> scan_sortings ex_env ex_study_disk ex_folder [KStr ''b''] Map.empty
       = Inr [KStr ''b'' \<mapsto> None]
   \<and> run_comparisons_loop ex_compare [KStr ''b''] (projr (init ex_env ex_study_disk ex_folder))
       = (None, (projr (init ex_env ex_study_disk ex_folder))
                  \<lparr>comparisons :=
                     (comparisons (projr (init ex_env ex_study_disk ex_folder)))
                       (KStr ''b'' \<mapsto> None)\<rparr>)
   \<and> run_comparisons_loop ex_compare [KStr ''a'']
        (projr (fst (create ex_env ex_disk ex_folder [] [(KStr ''a'', ex_case)] None)))
       = (Some KeyError,
          projr (fst (create ex_env ex_disk ex_folder [] [(KStr ''a'', ex_case)] None)))"
proof -
  let ?st = "projr (init ex_env ex_study_disk ex_folder)"
  let ?made = "projr (fst (create ex_env ex_disk ex_folder [] [(KStr ''a'', ex_case)] None))"
  have no': "\<not> exists_path ex_study_disk (sorting_folder_of ex_folder ''b'')"
    by code_simp
  have pass: "scan_sortings ex_env ex_study_disk ex_folder [KStr ''b''] Map.empty
       = Inr [KStr ''b'' \<mapsto> None]"
    using missing_sorter_output_skipped [where key = "KStr ''b''" and s = "''b''"
        and E = ex_env and fs = ex_study_disk and fo = ex_folder and rest = "[]"
        and so = Map.empty, THEN conjunct1] no'
    by simp
  have "map_option dataset (map_of (cases ?st) (KStr ''b'')) = Some (Some ''rec0'')"
    by code_simp
  then obtain c where c: "map_of (cases ?st) (KStr ''b'') = Some c" "dataset c = Some ''rec0''"
    by auto
  have "map_option dataset (map_of (cases ?st) (KStr ''a'')) = Some (Some ''rec0'')"
    by code_simp
  then obtain ca where ca: "map_of (cases ?st) (KStr ''a'') = Some ca" "dataset ca = Some ''rec0''"
    by auto
  have d: "datasets ?st ''rec0'' = Some (Extractor ''loaded'', Extractor ''loaded'')"
    by code_simp
  have sa: "sortings ?st (KStr ''a'') = Some (Some (Extractor ''loaded''))"
    by code_simp
  have r: "scan_folder ex_env ex_study_disk (fresh_study ex_folder) = Inr ?st"
    using returned_value[OF ex_init_returns] by (simp add: init_def)
  have mem: "KStr ''b'' \<in> fst ` set (cases ?st)"
    using ex_init_keys by (simp flip: set_map)
  have no: "\<not> exists_path ex_study_disk (sorting_folder_of (folder (fresh_study ex_folder)) ''b'')"
    by code_simp
  have none: "sortings ?st (KStr ''b'') = Some None"
    using missing_sorter_output_skipped [where key = "KStr ''b''" and s = "''b''"
        and E = ex_env and fs = ex_study_disk and st = "fresh_study ex_folder" and st' = ?st,
        THEN conjunct2, THEN conjunct1]
      r mem no
    by simp
  have keys: "keys_or_all ?st None = [KStr ''a'', KStr ''b'']"
    by (simp add: keys_or_all_def ex_init_keys)
  have ra: "\<exists>c d rec gt. map_of (cases ?st) (KStr ''a'') = Some c \<and> dataset c = Some d
            \<and> datasets ?st d = Some (rec, gt)
            \<and> (sortings ?st (KStr ''a'') = Some None
                 \<or> (\<exists>so. sortings ?st (KStr ''a'') = Some (Some so) \<and> \<not> isl (ex_compare gt so)))"
    using ca d sa by (intro exI conjI disjI2) (assumption | simp add: ex_compare_def)+
  have rb: "\<exists>c d rec gt. map_of (cases ?st) (KStr ''b'') = Some c \<and> dataset c = Some d
            \<and> datasets ?st d = Some (rec, gt)
            \<and> (sortings ?st (KStr ''b'') = Some None
                 \<or> (\<exists>so. sortings ?st (KStr ''b'') = Some (Some so) \<and> \<not> isl (ex_compare gt so)))"
    using c d none by (intro exI conjI disjI1) assumption+
  have ready: "\<forall>k\<in>set (keys_or_all ?st None).
          \<exists>c d rec gt. map_of (cases ?st) k = Some c \<and> dataset c = Some d
            \<and> datasets ?st d = Some (rec, gt)
            \<and> (sortings ?st k = Some None
                 \<or> (\<exists>so. sortings ?st k = Some (Some so) \<and> \<not> isl (ex_compare gt so)))"
    unfolding keys using ra rb by simp
  have fin: "fst (run_comparisons ex_compare None ?st) = None"
    by (rule missing_sorter_output_skipped [where cmp = ex_compare and case_keys = None
        and st = ?st, THEN conjunct2, THEN conjunct2, THEN conjunct2, THEN conjunct2,
        THEN conjunct1, THEN mp, OF ready])
  then have run: "run_comparisons ex_compare None ?st
                    = (None, snd (run_comparisons ex_compare None ?st))"
    by (metis prod.collapse)
  have mem': "KStr ''b'' \<in> set (keys_or_all ?st None)"
    by (simp add: keys)
  have cmp: "comparisons (snd (run_comparisons ex_compare None ?st)) (KStr ''b'') = Some None"
    by (rule missing_sorter_output_skipped [where key = "KStr ''b''" and cmp = ex_compare
        and case_keys = None and st = ?st and st'' = "snd (run_comparisons ex_compare None ?st)",
        THEN conjunct2, THEN conjunct2, THEN conjunct2, THEN conjunct2, THEN conjunct2,
        THEN conjunct1, THEN mp, OF conjI [OF run conjI [OF mem' none]]])
  have rsf: "read_sorter_folder ex_env ex_study_disk (sorter_folder_of (folder ?st) ''b'') = Inr None"
    by (simp add: ex_env_def)
  have k: "key_to_str (KStr ''b'') = Inr ''b''"
    by simp
  have cp: "copy_sortings_loop ex_env True [KStr ''b''] (?st, ex_study_disk)
              = (None, ?st, ex_study_disk)"
    using missing_sorter_output_skipped [where key = "KStr ''b''" and s = "''b''"
        and E = ex_env and fs = ex_study_disk and st = ?st and force = True and rest = "[]",
        THEN conjunct2, THEN conjunct2, THEN conjunct2, THEN conjunct2, THEN conjunct2,
        THEN conjunct2, THEN mp, OF conjI [OF k rsf]]
    by simp
  have cpass: "run_comparisons_loop ex_compare [KStr ''b''] ?st
       = (None, ?st\<lparr>comparisons := (comparisons ?st)(KStr ''b'' \<mapsto> None)\<rparr>)"
    using missing_sorter_output_skipped [where key = "KStr ''b''" and cmp = ex_compare
        and st = ?st and c = c and d = "''rec0''" and rec = "Extractor ''loaded''"
        and gt = "Extractor ''loaded''" and rest = "[]",
        THEN conjunct2, THEN conjunct2, THEN conjunct1, THEN mp,
        OF conjI [OF c(1) conjI [OF c(2) conjI [OF d none]]]]
    by simp
  have "map_option dataset (map_of (cases ?made) (KStr ''a'')) = Some (Some ''rec0'')"
    by code_simp
  then obtain c0 where c0: "map_of (cases ?made) (KStr ''a'') = Some c0" "dataset c0 = Some ''rec0''"
    by auto
  have d0: "datasets ?made ''rec0'' = None"
    by code_simp
  have kerr: "run_comparisons_loop ex_compare [KStr ''a''] ?made = (Some KeyError, ?made)"
    by (rule missing_sorter_output_skipped [where key = "KStr ''a''" and cmp = ex_compare
        and st = ?made and c = c0 and d = "''rec0''" and rest = "[]",
        THEN conjunct2, THEN conjunct2, THEN conjunct2, THEN conjunct1, THEN mp,
        OF conjI [OF c0(1) conjI [OF c0(2) d0]]])
  from ex_init_returns no' none fin cmp cp pass cpass kerr show ?thesis
    by (intro conjI)
qed

text \<open>
  C3 as stated fails for \<^verbatim>\<open>run_comparisons\<close>: \<^verbatim>\<open>create\<close> does not check that a case names
  one of the datasets. On the study created with the case \<^verbatim>\<open>"a"\<close> on dataset \<^verbatim>\<open>"rec0"\<close>
  and no dataset, the sortings folder of \<^verbatim>\<open>"a"\<close> does not exist and its sorting is
  \<^verbatim>\<open>None\<close>, and \<^verbatim>\<open>run_comparisons\<close> raises \<^verbatim>\<open>KeyError\<close> at the dataset lookup.
\<close>

theorem run_comparisons_raises_on_unknown_dataset:
  "\<not> isl (fst (create ex_env ex_disk ex_folder [] [(KStr ''a'', ex_case)] None))
   \<and> \<not> exists_path (snd (create ex_env ex_disk ex_folder [] [(KStr ''a'', ex_case)] None))
           (sorting_folder_of ex_folder ''a'')
   \<and> sortings (projr (fst (create ex_env ex_disk ex_folder [] [(KStr ''a'', ex_case)] None)))
        (KStr ''a'') = Some None
   \<and> fst (run_comparisons ex_compare None
            (projr (fst (create ex_env ex_disk ex_folder [] [(KStr ''a'', ex_case)] None))))
       = Some KeyError"
  by code_simp

section \<open>Running the sorters with keep\<close>

lemma run_sorters_step_keep:
  assumes "key_to_str key = Inr s"
  shows "run_sorters_step E True verbose key (st, fs) =
     (if exists_path fs (sorting_folder_of (folder st) s) then (Inr Skip_existing, st, fs)
      else case build_job st verbose key (sorter_folder_of (folder st) s) of
             Inl e \<Rightarrow> (Inl e, st, fs)
           | Inr job \<Rightarrow> (Inr (New_job job), st, fs))"
  using assms by (simp add: run_sorters_step_def Let_def)

lemma run_sorters_step_no_keep:
  assumes "key_to_str key = Inr s"
  shows "run_sorters_step E False verbose key (st, fs) =
     (case build_job st verbose key (sorter_folder_of (folder st) s) of
        Inl e \<Rightarrow> (Inl e, st, fs)
      | Inr job \<Rightarrow> (Inr (New_job job), st, fs))"
  using assms by (simp add: run_sorters_step_def Let_def)

lemma run_sorters_step_bad_key:
  assumes "key_to_str key = Inl e"
  shows "run_sorters_step E keep verbose key (st, fs) = (Inl e, st, fs)"
  using assms by (simp add: run_sorters_step_def)

text \<open>
  C8. In the loop of \<^verbatim>\<open>run_sorters\<close>, \<^verbatim>\<open>sorter_folder_exists\<close> is the existence of the
  sortings folder, so the branch that reads the sorter folder and copies it to the
  sortings folder is never taken: no pass of the loop ends with the second \<^verbatim>\<open>continue\<close>,
  no pass changes the object or the disk, \<^verbatim>\<open>read_sorter_folder\<close> has no influence on
  the pass, and two disks that agree on the sortings folder of the key give the same
  outcome whatever their sorters folders hold.
\<close>

theorem recovery_branch_unreachable:
  "fst (run_sorters_step E keep verbose key (st, fs)) \<noteq> Inr Copied_from_sorter_folder
   \<and> snd (run_sorters_step E keep verbose key (st, fs)) = (st, fs)
   \<and> run_sorters_step (E\<lparr>read_sorter_folder := rsf\<rparr>) keep verbose key (st, fs)
       = run_sorters_step E keep verbose key (st, fs)
   \<and> (key_to_str key = Inr s
        \<and> exists_path fs' (sorting_folder_of (folder st) s)
            = exists_path fs (sorting_folder_of (folder st) s)
      \<longrightarrow> fst (run_sorters_step E' keep verbose key (st, fs'))
          = fst (run_sorters_step E keep verbose key (st, fs)))"
proof (cases "key_to_str key")
  case (Inl e)
  then show ?thesis by (simp add: run_sorters_step_bad_key)
next
  case (Inr s')
  show ?thesis
  proof (cases keep)
    case True
    with Inr show ?thesis
      by (auto simp add: run_sorters_step_keep split: sum.splits)
  next
    case False
    with Inr show ?thesis
      by (auto simp add: run_sorters_step_no_keep split: sum.splits)
  qed
qed

theorem recovery_branch_unreachable_witness:
  "exists_path ex_sorted_disk (sorter_folder_of ex_folder ''b'')
   \<and> read_sorter_folder ex_env_sorted ex_sorted_disk (sorter_folder_of ex_folder ''b'')
       = Inr (Some (Extractor ''sorted''))
   \<and> \<not> exists_path ex_sorted_disk (sorting_folder_of ex_folder ''b'')
   \<and> fst (run_sorters_step ex_env_sorted True False (KStr ''b'')
             (projr (init ex_env ex_study_disk ex_folder), ex_sorted_disk))
       \<noteq> Inr Copied_from_sorter_folder
   \<and> fst (run_sorters_step ex_env_sorted True False (KStr ''b'')
             (projr (init ex_env ex_study_disk ex_folder), ex_sorted_disk))
       = fst (run_sorters_step ex_env True False (KStr ''b'')
                (projr (init ex_env ex_study_disk ex_folder), ex_study_disk))"
proof -
  let ?st = "projr (init ex_env ex_study_disk ex_folder)"
  have fo: "folder ?st = ex_folder"
    by (rule init_folder[OF returned_value[OF ex_init_returns]])
  have a: "exists_path ex_sorted_disk (sorter_folder_of ex_folder ''b'')"
    and b: "\<not> exists_path ex_sorted_disk (sorting_folder_of ex_folder ''b'')"
    and c: "\<not> exists_path ex_study_disk (sorting_folder_of ex_folder ''b'')"
    by code_simp+
  have d: "read_sorter_folder ex_env_sorted ex_sorted_disk (sorter_folder_of ex_folder ''b'')
       = Inr (Some (Extractor ''sorted''))"
    by (simp add: ex_env_sorted_def)
  have k: "key_to_str (KStr ''b'') = Inr ''b''"
    by simp
  have same: "exists_path ex_sorted_disk (sorting_folder_of (folder ?st) ''b'')
       = exists_path ex_study_disk (sorting_folder_of (folder ?st) ''b'')"
    using b c by (simp only: fo)
  note never = recovery_branch_unreachable [where E = ex_env_sorted and keep = True
      and verbose = False and key = "KStr ''b''" and st = ?st and fs = ex_sorted_disk
      and rsf = "read_sorter_folder ex_env" and s = "''b''" and fs' = ex_sorted_disk
      and E' = ex_env, THEN conjunct1]
  note indep = recovery_branch_unreachable [where E = ex_env and E' = ex_env_sorted
      and keep = True and verbose = False and key = "KStr ''b''" and s = "''b''" and st = ?st
      and fs = ex_study_disk and fs' = ex_sorted_disk and rsf = "read_sorter_folder ex_env",
      THEN conjunct2, THEN conjunct2, THEN conjunct2, THEN mp, OF conjI [OF k same]]
  from a d b never indep show ?thesis
    by (intro conjI)
qed

lemma build_job_parts:
  assumes "build_job st verbose key sorter_folder = Inr job"
  obtains c params d recording gt sorter_name where
    "map_of (cases st) key = Some c" "run_sorter_params c = Some params"
    "dataset c = Some d" "datasets st d = Some (recording, gt)"
    "params ''sorter_name'' = Some sorter_name"
    "job = ([''sorter_name'' \<mapsto> sorter_name, ''recording'' \<mapsto> VExtractor recording,
             ''output_folder'' \<mapsto> VPath sorter_folder] ++ params(''sorter_name'' := None))
           (''verbose'' \<mapsto> VBool verbose)"
proof -
  from assms obtain c where c: "map_of (cases st) key = Some c"
    by (cases "map_of (cases st) key") (simp_all add: build_job_def)
  from assms c obtain params where p: "run_sorter_params c = Some params"
    by (cases "run_sorter_params c") (simp_all add: build_job_def)
  from assms c p obtain d where d: "dataset c = Some d"
    by (cases "dataset c") (simp_all add: build_job_def)
  from assms c p d obtain recording gt where r: "datasets st d = Some (recording, gt)"
    by (cases "datasets st d") (auto simp add: build_job_def)
  from assms c p d r obtain sorter_name where n: "params ''sorter_name'' = Some sorter_name"
    by (cases "params ''sorter_name''") (simp_all add: build_job_def)
  from assms c p d r n have "job = ([''sorter_name'' \<mapsto> sorter_name, ''recording'' \<mapsto> VExtractor recording,
             ''output_folder'' \<mapsto> VPath sorter_folder] ++ params(''sorter_name'' := None))
           (''verbose'' \<mapsto> VBool verbose)"
    by (simp add: build_job_def)
  with c p d r n show ?thesis by (rule that)
qed

lemma build_job_entries:
  assumes "build_job st verbose key sorter_folder = Inr job"
  shows "\<exists>c params d recording gt sorter_name.
      map_of (cases st) key = Some c \<and> run_sorter_params c = Some params
      \<and> dataset c = Some d \<and> datasets st d = Some (recording, gt)
      \<and> params ''sorter_name'' = Some sorter_name
      \<and> job ''sorter_name'' = Some sorter_name
      \<and> job ''verbose'' = Some (VBool verbose)
      \<and> job ''recording'' = (case params ''recording'' of
                                None \<Rightarrow> Some (VExtractor recording) | Some v \<Rightarrow> Some v)
      \<and> job ''output_folder'' = (case params ''output_folder'' of
                                    None \<Rightarrow> Some (VPath sorter_folder) | Some v \<Rightarrow> Some v)
      \<and> (\<forall>name. name \<notin> {''sorter_name'', ''verbose'', ''recording'', ''output_folder''}
            \<longrightarrow> job name = params name)"
proof -
  from assms obtain c params d recording gt sorter_name where
    f: "map_of (cases st) key = Some c" "run_sorter_params c = Some params"
      "dataset c = Some d" "datasets st d = Some (recording, gt)"
      "params ''sorter_name'' = Some sorter_name" and
    job: "job = ([''sorter_name'' \<mapsto> sorter_name, ''recording'' \<mapsto> VExtractor recording,
             ''output_folder'' \<mapsto> VPath sorter_folder] ++ params(''sorter_name'' := None))
           (''verbose'' \<mapsto> VBool verbose)"
    by (rule build_job_parts)
  have j1: "job ''sorter_name'' = Some sorter_name"
    by (simp add: job map_add_def)
  have j2: "job ''verbose'' = Some (VBool verbose)"
    by (simp add: job)
  have j3: "job ''recording'' = (case params ''recording'' of
                                None \<Rightarrow> Some (VExtractor recording) | Some v \<Rightarrow> Some v)"
    by (simp add: job map_add_def split: option.splits)
  have j4: "job ''output_folder'' = (case params ''output_folder'' of
                                    None \<Rightarrow> Some (VPath sorter_folder) | Some v \<Rightarrow> Some v)"
    by (simp add: job map_add_def split: option.splits)
  have j5: "job name = params name"
    if "name \<notin> {''sorter_name'', ''verbose'', ''recording'', ''output_folder''}" for name
    using that by (simp add: job map_add_def split: option.splits)
  from f j1 j2 j3 j4 show ?thesis
    using j5 by (intro exI conjI) (assumption | simp)+
qed

lemma run_sorters_loop_keep:
  assumes "\<forall>key\<in>set keys. \<exists>s. key_to_str key = Inr s
             \<and> (\<not> exists_path fs (sorting_folder_of (folder st) s)
                  \<longrightarrow> \<not> isl (build_job st verbose key (sorter_folder_of (folder st) s)))"
  shows "run_sorters_loop E True verbose keys job_list (st, fs)
           = (Inr (job_list @ queued_jobs st fs verbose keys), st, fs)"
  using assms
proof (induction keys arbitrary: job_list)
  case Nil
  then show ?case by (simp add: queued_jobs_def)
next
  case (Cons key rest)
  from Cons.prems obtain s where
    s: "key_to_str key = Inr s" and
    b: "\<not> exists_path fs (sorting_folder_of (folder st) s)
         \<Longrightarrow> \<not> isl (build_job st verbose key (sorter_folder_of (folder st) s))"
    by auto
  have q: "queued_jobs st fs verbose (key # rest)
            = (if exists_path fs (sorting_folder_of (folder st) s) then []
               else case build_job st verbose key (sorter_folder_of (folder st) s) of
                      Inl e \<Rightarrow> [] | Inr job \<Rightarrow> [job])
              @ queued_jobs st fs verbose rest"
    using s by (simp add: queued_jobs_def)
  have ih: "run_sorters_loop E True verbose rest jl (st, fs)
           = (Inr (jl @ queued_jobs st fs verbose rest), st, fs)" for jl
    using Cons.prems by (intro Cons.IH) simp
  show ?case
  proof (cases "exists_path fs (sorting_folder_of (folder st) s)")
    case True
    then show ?thesis
      by (simp add: run_sorters_step_keep[OF s] ih q)
  next
    case False
    with b obtain job where "build_job st verbose key (sorter_folder_of (folder st) s) = Inr job"
      by (cases "build_job st verbose key (sorter_folder_of (folder st) s)") auto
    with False show ?thesis
      by (simp add: run_sorters_step_keep[OF s] ih q)
  qed
qed


text \<open>
  C1. With \<^verbatim>\<open>keep=True\<close>, a pass of the loop of \<^verbatim>\<open>run_sorters\<close> over a key whose sortings
  folder exists ends with \<^verbatim>\<open>continue\<close> and adds no job; a pass over any other key appends
  the job description of the case: the popped \<^verbatim>\<open>sorter_name\<close>, the recording of the
  case's dataset, the sorter output folder \<^verbatim>\<open>sorters/<key-string>\<close>, the remaining
  \<^verbatim>\<open>run_sorter_params\<close> (which \<^verbatim>\<open>job.update\<close> lets override \<^verbatim>\<open>recording\<close> and
  \<^verbatim>\<open>output_folder\<close>) and the global \<^verbatim>\<open>verbose\<close> flag. When every key has a key string
  and every key without a sortings folder has a case from which the job can be built,
  the loop changes neither object nor disk, and \<^verbatim>\<open>run_sorters\<close> is one call of
  \<^verbatim>\<open>run_sorter_jobs\<close> on the whole job list, followed by \<^verbatim>\<open>copy_sortings\<close> unless the
  engine is \<^verbatim>\<open>"slurm"\<close>.
\<close>

theorem run_sorters_keep:
  assumes "\<forall>key\<in>set (keys_or_all st case_keys). \<exists>s. key_to_str key = Inr s
             \<and> (\<not> exists_path fs (sorting_folder_of (folder st) s)
                  \<longrightarrow> \<not> isl (build_job st verbose key (sorter_folder_of (folder st) s)))"
  shows "(\<forall>key s. key_to_str key = Inr s \<and> exists_path fs (sorting_folder_of (folder st) s)
            \<longrightarrow> run_sorters_step E True verbose key (st, fs) = (Inr Skip_existing, st, fs))
    \<and> (\<forall>key s job. key_to_str key = Inr s \<and> \<not> exists_path fs (sorting_folder_of (folder st) s)
              \<and> build_job st verbose key (sorter_folder_of (folder st) s) = Inr job
            \<longrightarrow> run_sorters_step E True verbose key (st, fs) = (Inr (New_job job), st, fs)
              \<and> (\<exists>c params d recording gt sorter_name.
                    map_of (cases st) key = Some c \<and> run_sorter_params c = Some params
                    \<and> dataset c = Some d \<and> datasets st d = Some (recording, gt)
                    \<and> params ''sorter_name'' = Some sorter_name
                    \<and> job ''sorter_name'' = Some sorter_name
                    \<and> job ''verbose'' = Some (VBool verbose)
                    \<and> job ''recording'' = (case params ''recording'' of
                          None \<Rightarrow> Some (VExtractor recording) | Some v \<Rightarrow> Some v)
                    \<and> job ''output_folder'' = (case params ''output_folder'' of
                          None \<Rightarrow> Some (VPath (sorter_folder_of (folder st) s)) | Some v \<Rightarrow> Some v)
                    \<and> (\<forall>name. name \<notin> {''sorter_name'', ''verbose'', ''recording'',
                                        ''output_folder''}
                          \<longrightarrow> job name = params name)))
    \<and> run_sorters_loop E True verbose (keys_or_all st case_keys) [] (st, fs)
        = (Inr (queued_jobs st fs verbose (keys_or_all st case_keys)), st, fs)
    \<and> run_sorters E case_keys engine engine_kwargs True verbose (st, fs)
        = (case run_sorter_jobs E (queued_jobs st fs verbose (keys_or_all st case_keys))
                  engine engine_kwargs fs of
             (Some e, fs'') \<Rightarrow> (Some e, st, fs'')
           | (None, fs'') \<Rightarrow>
               if engine \<noteq> ''slurm''
               then copy_sortings E (Some (keys_or_all st case_keys)) True (st, fs'')
               else (None, st, fs''))"
proof -
  have skip: "run_sorters_step E True verbose key (st, fs) = (Inr Skip_existing, st, fs)"
    if "key_to_str key = Inr s" "exists_path fs (sorting_folder_of (folder st) s)" for key s
    using that by (simp add: run_sorters_step_keep)
  have queue: "run_sorters_step E True verbose key (st, fs) = (Inr (New_job job), st, fs)"
    if "key_to_str key = Inr s" "\<not> exists_path fs (sorting_folder_of (folder st) s)"
      "build_job st verbose key (sorter_folder_of (folder st) s) = Inr job" for key s job
    using that by (simp add: run_sorters_step_keep)
  have loop: "run_sorters_loop E True verbose (keys_or_all st case_keys) [] (st, fs)
        = (Inr (queued_jobs st fs verbose (keys_or_all st case_keys)), st, fs)"
    using run_sorters_loop_keep[OF assms, of E "[]"] by simp
  have whole: "run_sorters E case_keys engine engine_kwargs True verbose (st, fs)
        = (case run_sorter_jobs E (queued_jobs st fs verbose (keys_or_all st case_keys))
                  engine engine_kwargs fs of
             (Some e, fs'') \<Rightarrow> (Some e, st, fs'')
           | (None, fs'') \<Rightarrow>
               if engine \<noteq> ''slurm''
               then copy_sortings E (Some (keys_or_all st case_keys)) True (st, fs'')
               else (None, st, fs''))"
    by (simp add: run_sorters_def loop split: prod.splits option.splits)
  show ?thesis
    using skip queue build_job_entries loop whole
    by (intro conjI allI impI; (elim conjE)?) (assumption | simp)+
qed


theorem run_sorters_keep_witness:
  "\<not> isl (init ex_env ex_study_disk ex_folder)
   \<and> exists_path ex_study_disk (sorting_folder_of ex_folder ''a'')
   \<and> \<not> exists_path ex_study_disk (sorting_folder_of ex_folder ''b'')
   \<and> run_sorters_step ex_env True False (KStr ''a'')
        (projr (init ex_env ex_study_disk ex_folder), ex_study_disk)
       = (Inr Skip_existing, projr (init ex_env ex_study_disk ex_folder), ex_study_disk)
   \<and> run_sorters_step ex_env True False (KStr ''b'')
        (projr (init ex_env ex_study_disk ex_folder), ex_study_disk)
       = (Inr (New_job (projr (build_job (projr (init ex_env ex_study_disk ex_folder)) False
                                 (KStr ''b'') (sorter_folder_of ex_folder ''b'')))),
          projr (init ex_env ex_study_disk ex_folder), ex_study_disk)
   \<and> run_sorters_loop ex_env True False [KStr ''a'', KStr ''b''] []
        (projr (init ex_env ex_study_disk ex_folder), ex_study_disk)
       = (Inr (queued_jobs (projr (init ex_env ex_study_disk ex_folder)) ex_study_disk False
                 [KStr ''a'', KStr ''b'']),
          projr (init ex_env ex_study_disk ex_folder), ex_study_disk)
   \<and> length (queued_jobs (projr (init ex_env ex_study_disk ex_folder)) ex_study_disk False
                [KStr ''a'', KStr ''b'']) = 1
   \<and> hd (queued_jobs (projr (init ex_env ex_study_disk ex_folder)) ex_study_disk False
            [KStr ''a'', KStr ''b'']) ''sorter_name'' = Some (VStr ''tdc'')
   \<and> hd (queued_jobs (projr (init ex_env ex_study_disk ex_folder)) ex_study_disk False
            [KStr ''a'', KStr ''b'']) ''output_folder''
       = Some (VPath (Path True [''study'', ''sorters'', ''b'']))
   \<and> run_sorters ex_env None ''loop'' Map.empty True False
        (projr (init ex_env ex_study_disk ex_folder), ex_study_disk)
       = (None, projr (init ex_env ex_study_disk ex_folder), ex_study_disk)"
proof -
  let ?st = "projr (init ex_env ex_study_disk ex_folder)"
  have fo: "folder ?st = ex_folder"
    by (rule init_folder[OF returned_value[OF ex_init_returns]])
  have keys: "keys_or_all ?st None = [KStr ''a'', KStr ''b'']"
    by (simp add: keys_or_all_def ex_init_keys)
  have a: "exists_path ex_study_disk (sorting_folder_of ex_folder ''a'')"
    and b: "\<not> exists_path ex_study_disk (sorting_folder_of ex_folder ''b'')"
    by code_simp+
  have job: "\<not> isl (build_job ?st False (KStr ''b'') (sorter_folder_of ex_folder ''b''))"
    by code_simp
  have ready: "\<forall>key\<in>set (keys_or_all ?st None). \<exists>s. key_to_str key = Inr s
             \<and> (\<not> exists_path ex_study_disk (sorting_folder_of (folder ?st) s)
                  \<longrightarrow> \<not> isl (build_job ?st False key (sorter_folder_of (folder ?st) s)))"
    using a job by (simp add: keys fo)
  note t = run_sorters_keep [OF ready, where E = ex_env and engine = "''loop''"
      and engine_kwargs = Map.empty]
  have skip: "run_sorters_step ex_env True False (KStr ''a'') (?st, ex_study_disk)
       = (Inr Skip_existing, ?st, ex_study_disk)"
    using t [THEN conjunct1, THEN spec, THEN spec, THEN mp, of "KStr ''a''" "''a''"] a
    by (simp add: fo)
  have built: "build_job ?st False (KStr ''b'') (sorter_folder_of (folder ?st) ''b'')
       = Inr (projr (build_job ?st False (KStr ''b'') (sorter_folder_of ex_folder ''b'')))"
    using returned_value[OF job] by (simp add: fo)
  have queue: "run_sorters_step ex_env True False (KStr ''b'') (?st, ex_study_disk)
       = (Inr (New_job (projr (build_job ?st False (KStr ''b'') (sorter_folder_of ex_folder ''b'')))),
          ?st, ex_study_disk)"
    using t [THEN conjunct2, THEN conjunct1, THEN spec, THEN spec, THEN spec, THEN mp,
        of "KStr ''b''" "''b''"
          "projr (build_job ?st False (KStr ''b'') (sorter_folder_of ex_folder ''b''))",
        THEN conjunct1]
      b built
    by (simp add: fo)
  have loop: "run_sorters_loop ex_env True False [KStr ''a'', KStr ''b''] [] (?st, ex_study_disk)
       = (Inr (queued_jobs ?st ex_study_disk False [KStr ''a'', KStr ''b'']), ?st, ex_study_disk)"
    using t [THEN conjunct2, THEN conjunct2, THEN conjunct1] by (simp only: keys)
  have n: "length (queued_jobs ?st ex_study_disk False [KStr ''a'', KStr ''b'']) = 1"
    and j1: "hd (queued_jobs ?st ex_study_disk False [KStr ''a'', KStr ''b'']) ''sorter_name''
              = Some (VStr ''tdc'')"
    and j2: "hd (queued_jobs ?st ex_study_disk False [KStr ''a'', KStr ''b'']) ''output_folder''
              = Some (VPath (Path True [''study'', ''sorters'', ''b'']))"
    by code_simp+
  have runner: "run_sorter_jobs ex_env jobs ''loop'' Map.empty ex_study_disk = (None, ex_study_disk)"
    for jobs
    by (simp add: ex_env_def)
  have rsf: "read_sorter_folder ex_env fs p = Inr None" for fs p
    by (simp add: ex_env_def)
  have copy: "copy_sortings ex_env (Some [KStr ''a'', KStr ''b'']) True (?st, ex_study_disk)
       = (None, ?st, ex_study_disk)"
    by (simp add: copy_sortings_def keys_or_all_def copy_sortings_step_def rsf)
  have whole: "run_sorters ex_env None ''loop'' Map.empty True False (?st, ex_study_disk)
       = (None, ?st, ex_study_disk)"
    using t [THEN conjunct2, THEN conjunct2, THEN conjunct2]
    by (simp add: keys runner copy)
  from ex_init_returns a b skip queue loop n j1 j2 whole show ?thesis
    by (intro conjI)
qed

section \<open>The columns of the unit counts\<close>

lemma loc_set_columns:
  "df_columns (loc_set key col v df)
     = (if col \<in> set (df_columns df) then df_columns df else df_columns df @ [col])"
  by (simp add: loc_set_def)

lemma loc_set_present: "col \<in> set (df_columns df) \<Longrightarrow> df_columns (loc_set key col v df) = df_columns df"
  by (simp add: loc_set_columns)

lemma count_units_row_columns:
  assumes "set base_columns \<subseteq> set (df_columns df)"
    and "exhaustive_gt c \<Longrightarrow> set exhaustive_columns \<subseteq> set (df_columns df)"
  shows "df_columns (count_units_row E wds rds oms key c df) = df_columns df"
  using assms
  by (simp add: count_units_row_def Let_def loc_set_present base_columns_def exhaustive_columns_def)

lemma count_units_loop_columns:
  assumes "\<forall>key\<in>set keys. \<exists>c. comparisons st key = Some (Some c)
             \<and> (exhaustive_gt c \<longrightarrow> set exhaustive_columns \<subseteq> set (df_columns df))"
    and "set base_columns \<subseteq> set (df_columns df)"
  shows "\<exists>df'. count_units_loop E st wds rds oms keys df = Inr df'
           \<and> df_columns df' = df_columns df"
  using assms
proof (induction keys arbitrary: df)
  case Nil
  then show ?case by simp
next
  case (Cons key rest)
  from Cons.prems(1) obtain c where
    c: "comparisons st key = Some (Some c)" and
    ex: "exhaustive_gt c \<Longrightarrow> set exhaustive_columns \<subseteq> set (df_columns df)"
    by auto
  have cols: "df_columns (count_units_row E wds rds oms key c df) = df_columns df"
    using Cons.prems(2) ex by (rule count_units_row_columns)
  have "\<exists>df'. count_units_loop E st wds rds oms rest (count_units_row E wds rds oms key c df) = Inr df'
           \<and> df_columns df' = df_columns (count_units_row E wds rds oms key c df)"
    using Cons.prems by (intro Cons.IH) (simp_all add: cols)
  with c cols show ?case by simp
qed

text \<open>
  C6 (as amended). For a non-empty list of case keys whose comparisons have all been
  computed, none of them with \<^verbatim>\<open>exhaustive_gt\<close> set unless the first one has it set,
  on a scanned study (\<^verbatim>\<open>self.levels\<close> is there) and keys that pandas accepts as row
  labels, \<^verbatim>\<open>get_count_units\<close> returns a frame whose columns are exactly \<^verbatim>\<open>num_gt\<close>,
  \<^verbatim>\<open>num_sorter\<close>, \<^verbatim>\<open>num_well_detected\<close>, \<^verbatim>\<open>num_redundant\<close>, \<^verbatim>\<open>num_overmerged\<close>, followed by
  \<^verbatim>\<open>num_false_positive\<close> and \<^verbatim>\<open>num_bad\<close> if and only if the comparison of the first key has
  \<^verbatim>\<open>exhaustive_gt\<close> set.
\<close>

theorem count_units_columns:
  assumes "keys_or_all st case_keys = key0 # rest"
    and "comparisons st key0 = Some (Some c0)"
    and "\<forall>key\<in>set (key0 # rest). \<exists>c. comparisons st key = Some (Some c)
           \<and> (exhaustive_gt c \<longrightarrow> exhaustive_gt c0)"
    and "levels st = Some lv"
    and "(if is_str key0 then pd_Index E (key0 # rest) lv
          else pd_MultiIndex_from_tuples E (key0 # rest) lv) = Inr index"
  shows "\<exists>df. get_count_units E st case_keys wds rds oms = Inr df
    \<and> df_columns df
        = [''num_gt'', ''num_sorter'', ''num_well_detected'', ''num_redundant'', ''num_overmerged'']
          @ (if exhaustive_gt c0 then [''num_false_positive'', ''num_bad''] else [])"
proof -
  let ?df0 = "\<lparr>df_index = index,
               df_columns = base_columns @ (if exhaustive_gt c0 then exhaustive_columns else []),
               df_cells = (\<lambda>k. Map.empty)\<rparr>"
  have run: "get_count_units E st case_keys wds rds oms
               = count_units_loop E st wds rds oms (key0 # rest) ?df0"
    using assms(1,2,4,5) by (simp add: get_count_units_def)
  have "\<forall>key\<in>set (key0 # rest). \<exists>c. comparisons st key = Some (Some c)
             \<and> (exhaustive_gt c \<longrightarrow> set exhaustive_columns \<subseteq> set (df_columns ?df0))"
    using assms(3) by auto
  moreover have "set base_columns \<subseteq> set (df_columns ?df0)"
    by simp
  ultimately obtain df where
    "count_units_loop E st wds rds oms (key0 # rest) ?df0 = Inr df"
    "df_columns df = df_columns ?df0"
    using count_units_loop_columns by blast
  with run show ?thesis
    by (simp add: base_columns_def exhaustive_columns_def)
qed


theorem count_units_columns_witness:
  "\<not> isl (get_count_units ex_env
             (snd (run_comparisons ex_compare None (projr (init ex_env ex_both_disk ex_folder))))
             (Some [KStr ''a'', KStr ''b'']) None None None)
   \<and> df_columns (projr (get_count_units ex_env
             (snd (run_comparisons ex_compare None (projr (init ex_env ex_both_disk ex_folder))))
             (Some [KStr ''a'', KStr ''b'']) None None None))
       = [''num_gt'', ''num_sorter'', ''num_well_detected'', ''num_redundant'', ''num_overmerged'']"
proof -
  let ?st = "snd (run_comparisons ex_compare None (projr (init ex_env ex_both_disk ex_folder)))"
  have "map_option (map_option exhaustive_gt) (comparisons ?st (KStr ''a'')) = Some (Some False)"
    by code_simp
  then obtain ca where ca: "comparisons ?st (KStr ''a'') = Some (Some ca)" "\<not> exhaustive_gt ca"
    by auto
  have "map_option (map_option exhaustive_gt) (comparisons ?st (KStr ''b'')) = Some (Some False)"
    by code_simp
  then obtain cb where cb: "comparisons ?st (KStr ''b'') = Some (Some cb)" "\<not> exhaustive_gt cb"
    by auto
  have keys: "keys_or_all ?st (Some [KStr ''a'', KStr ''b'']) = KStr ''a'' # [KStr ''b'']"
    by (simp add: keys_or_all_def)
  have all: "\<forall>key\<in>set (KStr ''a'' # [KStr ''b'']). \<exists>c. comparisons ?st key = Some (Some c)
           \<and> (exhaustive_gt c \<longrightarrow> exhaustive_gt ca)"
    using ca cb by simp
  have lv: "levels ?st = Some (LevelStr ''level0'')"
    by code_simp
  have idx: "(if is_str (KStr ''a'') then pd_Index ex_env (KStr ''a'' # [KStr ''b'']) (LevelStr ''level0'')
          else pd_MultiIndex_from_tuples ex_env (KStr ''a'' # [KStr ''b'']) (LevelStr ''level0''))
         = Inr [KStr ''a'', KStr ''b'']"
    by (simp add: ex_env_def)
  from count_units_columns [OF keys ca(1) all lv idx, of None None None] ca(2)
  show ?thesis by auto
qed

text \<open>
  C6 as stated fails when the listed comparisons differ in \<^verbatim>\<open>exhaustive_gt\<close>: with case
  \<^verbatim>\<open>"a"\<close> compared without and case \<^verbatim>\<open>"b"\<close> with \<^verbatim>\<open>exhaustive_gt\<close>, the frame for
  \<^verbatim>\<open>["a", "b"]\<close> is created with the five columns of the first comparison, and the
  assignments to \<^verbatim>\<open>num_false_positive\<close> and \<^verbatim>\<open>num_bad\<close> for \<^verbatim>\<open>"b"\<close> add the two columns.
\<close>

theorem count_units_columns_mixed:
  "map_option (map_option exhaustive_gt) (comparisons ex_mixed_study (KStr ''a'')) = Some (Some False)
   \<and> map_option (map_option exhaustive_gt) (comparisons ex_mixed_study (KStr ''b''))
       = Some (Some True)
   \<and> \<not> isl (get_count_units ex_env ex_mixed_study (Some [KStr ''a'', KStr ''b'']) None None None)
   \<and> df_columns (projr (get_count_units ex_env ex_mixed_study (Some [KStr ''a'', KStr ''b''])
                          None None None))
       = [''num_gt'', ''num_sorter'', ''num_well_detected'', ''num_redundant'', ''num_overmerged'',
          ''num_false_positive'', ''num_bad'']"
  by code_simp

section \<open>The layout of the sorting summary\<close>

lemma nth_concat_uniform:
  assumes "\<forall>r\<in>set rows. length r = n" and "i < length rows" and "j < n"
  shows "concat rows ! (i * n + j) = rows ! i ! j"
  using assms
proof (induction rows arbitrary: i)
  case Nil
  then show ?case by simp
next
  case (Cons r rows)
  show ?case
  proof (cases i)
    case 0
    with Cons.prems show ?thesis by (simp add: nth_append)
  next
    case (Suc i')
    with Cons.prems have "concat rows ! (i' * n + j) = rows ! i' ! j"
      by (intro Cons.IH) simp_all
    with Suc Cons.prems show ?thesis
      by (simp add: nth_append add.assoc)
  qed
qed

lemma similarity_scores_length:
  "length (similarity_scores m f us) = length us * length us"
  by (simp add: similarity_scores_def length_concat comp_def split_def sum_list_triv)

lemma similarity_scores_nth:
  assumes "i1 < length us" and "i2 < length us"
  shows "similarity_scores m f us ! (i1 * length us + i2)
           = UnitSimilarityScore (us ! i1) (us ! i2) (f (m i1 i2))"
proof -
  let ?row = "\<lambda>(i1, u1). map (\<lambda>(i2, u2). UnitSimilarityScore u1 u2 (f (m i1 i2))) (enumerate 0 us)"
  let ?rows = "map ?row (enumerate 0 us)"
  have "\<forall>r\<in>set ?rows. length r = length us"
    by auto
  moreover have "i1 < length ?rows"
    using assms(1) by simp
  ultimately have "concat ?rows ! (i1 * length us + i2) = ?rows ! i1 ! i2"
    using assms(2) by (rule nth_concat_uniform)
  also have "\<dots> = UnitSimilarityScore (us ! i1) (us ! i2) (f (m i1 i2))"
    using assms by (simp add: nth_enumerate_eq)
  finally show ?thesis
    by (simp add: similarity_scores_def)
qed

text \<open>
  C7. \<^verbatim>\<open>plot_sortingview\<close> only composes views. The layout is a horizontal splitter;
  its first item is the unit table, put above a curation panel in a vertical splitter
  exactly when \<^verbatim>\<open>curation\<close> is set; its second item is a horizontal splitter of the unit
  locations (stretch 0.2) and a horizontal splitter of the average waveforms and a
  vertical splitter of the spike amplitudes above the cross-correlograms. The only
  thing computed is the list of similarity scores given to the unit table: one score
  for every ordered pair of unit ids, row by row.
\<close>

theorem sorting_summary_layout:
  "plot_sortingview sim f32 dp =
     Splitter Horizontal
       (LayoutItem
          (if curation dp
           then Splitter Vertical
                  (LayoutItem
                     (UnitsTable (waveform_extractor dp) (unit_table_properties dp)
                        (similarity_scores (sim (waveform_extractor dp) (unit_ids dp)) f32
                           (unit_ids dp))) None)
                  (LayoutItem (SortingCuration2 (label_choices dp)) None)
           else UnitsTable (waveform_extractor dp) (unit_table_properties dp)
                  (similarity_scores (sim (waveform_extractor dp) (unit_ids dp)) f32
                     (unit_ids dp)))
          None)
       (LayoutItem
          (Splitter Horizontal
             (LayoutItem (UnitLocations (waveform_extractor dp) (unit_ids dp)) (Some (2 / 10)))
             (LayoutItem
                (Splitter Horizontal
                   (LayoutItem
                      (UnitTemplates (waveform_extractor dp) (unit_ids dp) (sparsity dp)) None)
                   (LayoutItem
                      (Splitter Vertical
                         (LayoutItem
                            (Amplitudes (waveform_extractor dp) (unit_ids dp)
                               (max_amplitudes_per_unit dp)) None)
                         (LayoutItem
                            (CrossCorrelograms (waveform_extractor dp) (unit_ids dp)) None))
                      None))
                None))
          None)
   \<and> leaves (plot_sortingview sim f32 dp) =
       UnitsTable (waveform_extractor dp) (unit_table_properties dp)
         (similarity_scores (sim (waveform_extractor dp) (unit_ids dp)) f32 (unit_ids dp))
       # (if curation dp then [SortingCuration2 (label_choices dp)] else [])
       @ [UnitLocations (waveform_extractor dp) (unit_ids dp),
          UnitTemplates (waveform_extractor dp) (unit_ids dp) (sparsity dp),
          Amplitudes (waveform_extractor dp) (unit_ids dp) (max_amplitudes_per_unit dp),
          CrossCorrelograms (waveform_extractor dp) (unit_ids dp)]
   \<and> length (similarity_scores m f32 us) = length us * length us
   \<and> (\<forall>i1 i2. i1 < length us \<and> i2 < length us
         \<longrightarrow> similarity_scores m f32 us ! (i1 * length us + i2)
             = UnitSimilarityScore (us ! i1) (us ! i2) (f32 (m i1 i2)))"
proof -
  have tree: "plot_sortingview sim f32 dp =
     Splitter Horizontal
       (LayoutItem
          (if curation dp
           then Splitter Vertical
                  (LayoutItem
                     (UnitsTable (waveform_extractor dp) (unit_table_properties dp)
                        (similarity_scores (sim (waveform_extractor dp) (unit_ids dp)) f32
                           (unit_ids dp))) None)
                  (LayoutItem (SortingCuration2 (label_choices dp)) None)
           else UnitsTable (waveform_extractor dp) (unit_table_properties dp)
                  (similarity_scores (sim (waveform_extractor dp) (unit_ids dp)) f32
                     (unit_ids dp)))
          None)
       (LayoutItem
          (Splitter Horizontal
             (LayoutItem (UnitLocations (waveform_extractor dp) (unit_ids dp)) (Some (2 / 10)))
             (LayoutItem
                (Splitter Horizontal
                   (LayoutItem
                      (UnitTemplates (waveform_extractor dp) (unit_ids dp) (sparsity dp)) None)
                   (LayoutItem
                      (Splitter Vertical
                         (LayoutItem
                            (Amplitudes (waveform_extractor dp) (unit_ids dp)
                               (max_amplitudes_per_unit dp)) None)
                         (LayoutItem
                            (CrossCorrelograms (waveform_extractor dp) (unit_ids dp)) None))
                      None))
                None))
          None)"
    by (simp add: plot_sortingview_def Let_def)
  have lv: "leaves (plot_sortingview sim f32 dp) =
       UnitsTable (waveform_extractor dp) (unit_table_properties dp)
         (similarity_scores (sim (waveform_extractor dp) (unit_ids dp)) f32 (unit_ids dp))
       # (if curation dp then [SortingCuration2 (label_choices dp)] else [])
       @ [UnitLocations (waveform_extractor dp) (unit_ids dp),
          UnitTemplates (waveform_extractor dp) (unit_ids dp) (sparsity dp),
          Amplitudes (waveform_extractor dp) (unit_ids dp) (max_amplitudes_per_unit dp),
          CrossCorrelograms (waveform_extractor dp) (unit_ids dp)]"
    by (simp add: tree)
  from tree lv similarity_scores_length similarity_scores_nth show ?thesis
    by (intro conjI allI impI; (elim conjE)?) (assumption | simp)+
qed


theorem sorting_summary_layout_witness:
  "leaves (plot_sortingview ex_similarity id ex_plot) =
     [UnitsTable (Extractor ''we'') None
        [UnitSimilarityScore 7 7 1, UnitSimilarityScore 7 9 0,
         UnitSimilarityScore 9 7 0, UnitSimilarityScore 9 9 1],
      SortingCuration2 (Some [''good'', ''noise'']),
      UnitLocations (Extractor ''we'') [7, 9],
      UnitTemplates (Extractor ''we'') [7, 9] None,
      Amplitudes (Extractor ''we'') [7, 9] None,
      CrossCorrelograms (Extractor ''we'') [7, 9]]
   \<and> (1::nat) < length [7, 9 :: nat]
   \<and> similarity_scores (ex_similarity (Extractor ''we'') [7, 9]) id [7, 9] ! 2
       = UnitSimilarityScore 9 7 0"
proof -
  note t = sorting_summary_layout [where sim = ex_similarity and ?f32.0 = id and dp = ex_plot
      and m = "ex_similarity (Extractor ''we'') [7, 9]" and us = "[7, 9]"]
  have sc: "similarity_scores (ex_similarity (Extractor ''we'') [7, 9]) id [7, 9]
      = [UnitSimilarityScore 7 7 1, UnitSimilarityScore 7 9 0,
         UnitSimilarityScore 9 7 0, UnitSimilarityScore 9 9 1]"
    by (simp add: similarity_scores_def ex_similarity_def enumerate_eq_zip upt_rec)
  have lv: "leaves (plot_sortingview ex_similarity id ex_plot) =
     [UnitsTable (Extractor ''we'') None
        [UnitSimilarityScore 7 7 1, UnitSimilarityScore 7 9 0,
         UnitSimilarityScore 9 7 0, UnitSimilarityScore 9 9 1],
      SortingCuration2 (Some [''good'', ''noise'']),
      UnitLocations (Extractor ''we'') [7, 9],
      UnitTemplates (Extractor ''we'') [7, 9] None,
      Amplitudes (Extractor ''we'') [7, 9] None,
      CrossCorrelograms (Extractor ''we'') [7, 9]]"
    using t [THEN conjunct2, THEN conjunct1] by (simp add: ex_plot_def sc)
  have nth: "similarity_scores (ex_similarity (Extractor ''we'') [7, 9]) id [7, 9] ! 2
       = UnitSimilarityScore 9 7 0"
    using t [THEN conjunct2, THEN conjunct2, THEN conjunct2, THEN spec, THEN spec, THEN mp,
        of 1 0]
    by (simp add: ex_similarity_def numeral_2_eq_2)
  from lv nth show ?thesis by simp
qed

end
